theory Spec2Isabelle
  imports Complex_Main "HOL-Library.Monad_Syntax"
begin

section \<open>Arrays and the array library\<close>

text \<open>
  The pushers of \<^verbatim>\<open>es1d/pushers.py\<close> work on one-dimensional arrays of floating-point
  numbers. An array is a list; a floating-point number is a real number, so every
  arithmetic operation is the exact one. An operation that raises in Python returns
  \<open>None\<close>. Division is the division of the real field; where the program divides by field
  data (the density \<open>n\<close>), the theorems assume the divisor is nowhere zero.

  Two arrays combined elementwise are broadcast first: equal lengths combine entry by
  entry, an array of length one is stretched to the other's length, and any other pair
  of lengths is a shape error.
\<close>

definition bcast :: "('a \<Rightarrow> 'b \<Rightarrow> 'c) \<Rightarrow> 'a list \<Rightarrow> 'b list \<Rightarrow> 'c list option" where
  "bcast f xs ys =
     (if length xs = length ys then Some (map2 f xs ys)
      else if length xs = 1 then Some (map (f (hd xs)) ys)
      else if length ys = 1 then Some (map (\<lambda>x. f x (hd ys)) xs)
      else None)"

definition ones_like :: "real list \<Rightarrow> real list" where
  "ones_like a = replicate (length a) 1"

definition zeros_like :: "real list \<Rightarrow> real list" where
  "zeros_like a = replicate (length a) 0"

text \<open>
  The discrete Fourier transforms \<^verbatim>\<open>fft\<close>, \<^verbatim>\<open>ifft\<close>, \<^verbatim>\<open>rfft\<close> and \<^verbatim>\<open>irfft\<close> by their defining
  sums. \<^verbatim>\<open>rfft\<close> keeps the first \<open>N div 2 + 1\<close> coefficients of the transform of a real
  array. \<^verbatim>\<open>irfft\<close> of \<open>m\<close> coefficients returns \<open>2 * (m - 1)\<close> real samples; it reads its
  input as the non-negative half of a Hermitian spectrum and ignores the imaginary part
  of the first and of the last coefficient.
\<close>

definition fft :: "complex list \<Rightarrow> complex list" where
  "fft a = (let N = length a in
     map (\<lambda>k. \<Sum>j\<leftarrow>[0..<N]. a ! j * cis (- (2 * pi * real j * real k / real N))) [0..<N])"

definition ifft :: "complex list \<Rightarrow> complex list" where
  "ifft a = (let N = length a in
     map (\<lambda>j. (\<Sum>k\<leftarrow>[0..<N]. a ! k * cis (2 * pi * real j * real k / real N)) / of_nat N) [0..<N])"

definition rfft :: "real list \<Rightarrow> complex list" where
  "rfft a = take (length a div 2 + 1) (fft (map complex_of_real a))"

definition irfft :: "complex list \<Rightarrow> real list" where
  "irfft a = (let n = 2 * (length a - 1) in
     map (\<lambda>j. (Re (a ! 0)
                + 2 * (\<Sum>k\<leftarrow>[1..<n div 2]. Re (a ! k * cis (2 * pi * real j * real k / real n)))
                + Re (a ! (n div 2)) * cos (pi * real j)) / real n) [0..<n])"

text \<open>
  \<^verbatim>\<open>linspace(start, stop, num)\<close> with the end point included: \<open>num\<close> samples, the last one set
  to \<open>stop\<close>.
\<close>

definition linspace :: "real \<Rightarrow> real \<Rightarrow> nat \<Rightarrow> real list" where
  "linspace start stop num =
     (if num = 0 then []
      else if num = 1 then [start]
      else map (\<lambda>i. real i * ((stop - start) / real (num - 1)) + start) [0..<num - 1] @ [stop])"

text \<open>
  \<^verbatim>\<open>interp(x, xp, fp, left, right)\<close>: piecewise-linear interpolation of the samples
  \<open>(xp, fp)\<close> at every entry of \<open>x\<close>. The segment is found by counting the sample points
  not above \<open>x\<close>, clipped into \<open>1 .. length xp - 1\<close>; an entry below the first sample point
  is \<open>left\<close>, one above the last is \<open>right\<close>. Sample arrays of different lengths are
  rejected.
\<close>

definition searchsorted_right :: "real list \<Rightarrow> real \<Rightarrow> nat" where
  "searchsorted_right xp x = length (filter (\<lambda>v. v \<le> x) xp)"

definition interp1 :: "real list \<Rightarrow> real list \<Rightarrow> real \<Rightarrow> real \<Rightarrow> real \<Rightarrow> real" where
  "interp1 xp fp left right x =
     (let i = min (max (searchsorted_right xp x) 1) (length xp - 1);
          df = fp ! i - fp ! (i - 1);
          dx = xp ! i - xp ! (i - 1);
          delta = x - xp ! (i - 1);
          f = (if dx = 0 then fp ! (i - 1) else fp ! (i - 1) + (delta / dx) * df);
          f = (if x < xp ! 0 then left else f)
      in if x > last xp then right else f)"

definition interp :: "real list \<Rightarrow> real list \<Rightarrow> real list \<Rightarrow> real \<Rightarrow> real \<Rightarrow> real list option" where
  "interp x xp fp left right =
     (if length xp \<noteq> length fp \<or> xp = [] then None
      else Some (map (interp1 xp fp left right) x))"

section \<open>The frequency table\<close>

text \<open>
  The dispersion solver \<^verbatim>\<open>get_roots_to_electrostatic_dispersion\<close> is a parameter: a function
  of the density ratio, the temperature ratio and the wavenumber to a complex root.
\<close>

type_synonym solver = "real \<Rightarrow> real \<Rightarrow> real \<Rightarrow> complex"

text \<open>
  The loop of \<^verbatim>\<open>get_complex_frequency_table\<close> over \<^verbatim>\<open>enumerate(klds)\<close>: each step stores the
  real and the imaginary part of the root at index \<open>i\<close>; a store outside the array raises.
\<close>

fun table_loop :: "solver \<Rightarrow> (nat \<times> real) list \<Rightarrow> real list \<Rightarrow> real list
    \<Rightarrow> (real list \<times> real list) option" where
  "table_loop solve [] wrs wis = Some (wrs, wis)"
| "table_loop solve ((i, kld) # rest) wrs wis =
     (let ww = solve 1 1 kld in
      if i < length wrs \<and> i < length wis
      then table_loop solve rest (wrs[i := Re ww]) (wis[i := Im ww])
      else None)"

definition get_complex_frequency_table :: "solver \<Rightarrow> nat
    \<Rightarrow> (real list \<times> real list \<times> real list) option" where
  "get_complex_frequency_table solve num =
     (let klds = linspace (2 / 10) (4 / 10) 128;
          wrs = replicate num 0;
          wis = replicate num 0
      in map_option (\<lambda>(wrs, wis). (wrs, wis, klds))
           (table_loop solve (enumerate 0 klds) wrs wis))"

section \<open>The drive field\<close>

text \<open>
  The envelope divides by the rise scale, and a pulse may hold the rise scale 0. Its
  operands are numbers of the array library (the grid is a \<^verbatim>\<open>jax.Array\<close>, the time a
  \<^verbatim>\<open>jnp.float64\<close>), so the division does not raise: a positive numerator over 0 is
  \<open>+\<infinity>\<close>, whose hyperbolic tangent is 1, a negative one is \<open>-\<infinity>\<close>, whose hyperbolic
  tangent is \<open>- 1\<close>, and \<open>0 / 0\<close> is not a number. \<open>tanh_quotient x y\<close> is
  \<^verbatim>\<open>jnp.tanh(x / y)\<close>, with \<open>None\<close> for not-a-number; a number that is not \<open>None\<close> is finite.
  A rise scale 0 is the float \<open>+0.0\<close>.
  Not-a-number spreads through every later operation, so an entry of the drive field is
  a real number or \<open>None\<close>.
\<close>

definition tanh_quotient :: "real \<Rightarrow> real \<Rightarrow> real option" where
  "tanh_quotient x y =
     (if y \<noteq> 0 then Some (tanh (x / y))
      else if 0 < x then Some 1
      else if x < 0 then Some (- 1)
      else None)"

definition get_envelope :: "real \<Rightarrow> real \<Rightarrow> real \<Rightarrow> real \<Rightarrow> real \<Rightarrow> real option" where
  "get_envelope p_wL p_wR p_L p_R ax = do {
     a \<leftarrow> tanh_quotient (ax - p_L) p_wL;
     b \<leftarrow> tanh_quotient (ax - p_R) p_wR;
     Some (0.5 * (a - b))
   }"

text \<open>The same expression on an array argument works entry by entry.\<close>

definition get_envelope_arr :: "real \<Rightarrow> real \<Rightarrow> real \<Rightarrow> real \<Rightarrow> real list
    \<Rightarrow> real option list" where
  "get_envelope_arr p_wL p_wR p_L p_R ax = map (get_envelope p_wL p_wR p_L p_R) ax"

record Driver =
  xax :: "real list"

definition Driver_init :: "real list \<Rightarrow> Driver" where
  "Driver_init x = \<lparr>xax = x\<rparr>"

text \<open>
  The pulse is a dictionary from names to numbers; reading a name it lacks raises, and
  then the call returns \<open>None\<close>.
\<close>

definition Driver_call :: "Driver \<Rightarrow> (string \<rightharpoonup> real) \<Rightarrow> real \<Rightarrow> real option list option" where
  "Driver_call d this_pulse current_time = do {
     kk \<leftarrow> this_pulse ''k0'';
     ww \<leftarrow> this_pulse ''w0'';
     dw \<leftarrow> this_pulse ''dw0'';
     tc \<leftarrow> this_pulse ''t_c'';
     tw \<leftarrow> this_pulse ''t_w'';
     let t_L = tc - tw * 0.5;
     let t_R = tc + tw * 0.5;
     t_wL \<leftarrow> this_pulse ''t_r'';
     let t_wR = t_wL;
     xc \<leftarrow> this_pulse ''x_c'';
     xw \<leftarrow> this_pulse ''x_w'';
     let x_L = xc - xw * 0.5;
     let x_R = xc + xw * 0.5;
     x_wL \<leftarrow> this_pulse ''x_r'';
     let x_wR = x_wL;
     let envelope_t = get_envelope t_wL t_wR t_L t_R current_time;
     let envelope_x = get_envelope_arr x_wL x_wR x_L x_R (xax d);
     a0 \<leftarrow> this_pulse ''a0'';
     bcast (\<lambda>e s. map_option (\<lambda>v. v * s) e)
       (map (\<lambda>ex. do { et \<leftarrow> envelope_t; e \<leftarrow> ex; Some (et * e * \<bar>kk\<bar> * a0) }) envelope_x)
       (map (\<lambda>x. sin (kk * x - (ww + dw) * current_time)) (xax d))
   }"

section \<open>Poisson solver, Ampere step and the spectral gradient\<close>




definition StepAmpere_call :: "real list \<Rightarrow> real list \<Rightarrow> real list option" where
  "StepAmpere_call n u = bcast (*) n u"

definition gradient :: "real list \<Rightarrow> real list \<Rightarrow> real list option" where
  "gradient arr kx = do {
     y \<leftarrow> bcast (*) (map (\<lambda>k. \<i> * complex_of_real k) kx) (fft (map complex_of_real arr));
     Some (map Re (ifft y))
   }"

section \<open>The steppers\<close>

record DensityStepper =
  ds_kx :: "real list"

definition DensityStepper_init :: "real list \<Rightarrow> DensityStepper" where
  "DensityStepper_init kx = \<lparr>ds_kx = kx\<rparr>"

definition DensityStepper_call :: "DensityStepper \<Rightarrow> real list \<Rightarrow> real list \<Rightarrow> real list option" where
  "DensityStepper_call s n u = do {
     dn \<leftarrow> gradient n (ds_kx s);
     t1 \<leftarrow> bcast (*) (map uminus u) dn;
     du \<leftarrow> gradient u (ds_kx s);
     t2 \<leftarrow> bcast (*) n du;
     bcast (-) t1 t2
   }"

record VelocityStepper =
  vs_kx :: "real list"
  vs_wis :: "real list"
  vs_wr_corr :: "real list"

definition VelocityStepper_init :: "solver \<Rightarrow> real list \<Rightarrow> real list \<Rightarrow> (string \<rightharpoonup> bool)
    \<Rightarrow> VelocityStepper option" where
  "VelocityStepper_init solve kx kxr physics = do {
     (wrs, wis, klds) \<leftarrow> get_complex_frequency_table solve 128;
     wrs' \<leftarrow> interp kxr klds wrs 0 (last wrs);
     kin \<leftarrow> physics ''kinetic_real_wepw'';
     let wr_corr = (if kin then map2 (/) wrs' (map (\<lambda>k. sqrt (1 + 3 * k\<^sup>2)) kxr)
                    else ones_like kxr);
     ld \<leftarrow> physics ''landau_damping'';
     w \<leftarrow> (if ld then interp kxr klds wis 0 (last wis) else Some (zeros_like kxr));
     Some \<lparr>vs_kx = kx, vs_wis = w, vs_wr_corr = wr_corr\<rparr>
   }"

definition landau_damping_term :: "VelocityStepper \<Rightarrow> real list \<Rightarrow> real list option" where
  "landau_damping_term s u = do {
     y \<leftarrow> bcast (\<lambda>w z. complex_of_real w * z) (vs_wis s) (rfft u);
     Some (irfft y)
   }"

definition restoring_force_term :: "VelocityStepper \<Rightarrow> real list \<Rightarrow> real list option" where
  "restoring_force_term s gradp_over_nm = do {
     y \<leftarrow> bcast (\<lambda>w z. complex_of_real w * z) (vs_wr_corr s) (rfft gradp_over_nm);
     Some (irfft y)
   }"

definition VelocityStepper_call :: "VelocityStepper \<Rightarrow> real list \<Rightarrow> real list \<Rightarrow> real list
    \<Rightarrow> real list \<Rightarrow> real list \<Rightarrow> real list option" where
  "VelocityStepper_call s n u p_over_m q_over_m_times_e delta = do {
     du \<leftarrow> gradient u (vs_kx s);
     t1 \<leftarrow> bcast (*) (map uminus u) du;
     dp \<leftarrow> gradient p_over_m (vs_kx s);
     g \<leftarrow> bcast (/) dp n;
     rf \<leftarrow> restoring_force_term s g;
     t2 \<leftarrow> bcast (-) t1 rf;
     t3 \<leftarrow> bcast (-) t2 q_over_m_times_e;
     ld \<leftarrow> landau_damping_term s u;
     t4 \<leftarrow> bcast (/) ld (map (\<lambda>d. 1 + d\<^sup>2) delta);
     bcast (+) t3 t4
   }"

record EnergyStepper =
  es_kx :: "real list"
  es_gamma :: real

definition EnergyStepper_init :: "real list \<Rightarrow> real \<Rightarrow> EnergyStepper" where
  "EnergyStepper_init kx gamma = \<lparr>es_kx = kx, es_gamma = gamma\<rparr>"

definition EnergyStepper_call :: "EnergyStepper \<Rightarrow> real list \<Rightarrow> real list \<Rightarrow> real list
    \<Rightarrow> real list \<Rightarrow> real list option" where
  "EnergyStepper_call s n u p_over_m q_over_m_times_e = do {
     dp \<leftarrow> gradient p_over_m (es_kx s);
     t1 \<leftarrow> bcast (*) (map uminus u) dp;
     du \<leftarrow> gradient u (es_kx s);
     t2 \<leftarrow> bcast (*) (map (\<lambda>p. es_gamma s * p) p_over_m) du;
     bcast (-) t1 t2
   }"

record ParticleTrapper =
  pt_kxr :: "real list"
  pt_wis :: "real list"
  pt_kx :: "real list"

definition ParticleTrapper_init :: "solver \<Rightarrow> real list \<Rightarrow> real list \<Rightarrow> ParticleTrapper option" where
  "ParticleTrapper_init solve kxr kx = do {
     (wrs, wis, klds) \<leftarrow> get_complex_frequency_table solve 128;
     w \<leftarrow> interp kxr klds wis 0 0;
     Some \<lparr>pt_kxr = kxr, pt_wis = w, pt_kx = kx\<rparr>
   }"

definition ParticleTrapper_call :: "ParticleTrapper \<Rightarrow> real list \<Rightarrow> real list \<Rightarrow> real list option" where
  "ParticleTrapper_call s e delta = do {
     dd \<leftarrow> gradient delta (pt_kx s);
     y \<leftarrow> bcast (\<lambda>z w. z * complex_of_real w) (rfft e) (pt_wis s);
     t1 \<leftarrow> bcast (+) (map (\<lambda>v. - 3.757 * v) dd) (map (\<lambda>v. 100 * \<bar>v\<bar>) (irfft y));
     bcast (-) t1 (map (\<lambda>d. 0.001 * d) delta)
   }"

section \<open>Reference expressions and sample inputs\<close>

text \<open>
  The array expression \<^verbatim>\<open>a * f + b * g\<close> for scalars \<open>a\<close>, \<open>b\<close> and arrays \<open>f\<close>, \<open>g\<close>.
\<close>

definition lincomb :: "real \<Rightarrow> real list \<Rightarrow> real \<Rightarrow> real list \<Rightarrow> real list option" where
  "lincomb a f b g = bcast (+) (map (\<lambda>x. a * x) f) (map (\<lambda>x. b * x) g)"

text \<open>
  The right-hand side of the Euler fluid equation for the velocity, without damping and
  without dispersion correction, as the specification words it:
  \<open>- u (du/dx) - (d(p/m)/dx) / n - q_over_m_times_e\<close>, both derivatives taken by the
  spectral gradient.
\<close>

definition euler_rhs :: "real list \<Rightarrow> real list \<Rightarrow> real list \<Rightarrow> real list \<Rightarrow> real list
    \<Rightarrow> real list option" where
  "euler_rhs kx n u p_over_m q_over_m_times_e = do {
     du \<leftarrow> gradient u kx;
     dp \<leftarrow> gradient p_over_m kx;
     Some (map (\<lambda>i. - (u ! i) * du ! i - dp ! i / n ! i - q_over_m_times_e ! i) [0..<length u])
   }"

text \<open>A dispersion solver to run the definitions on, and the two physics records used below.\<close>

definition example_solver :: solver where
  "example_solver d t k = Complex (d + k) (- (t * k))"

definition physics_off :: "string \<rightharpoonup> bool" where
  "physics_off = [''kinetic_real_wepw'' \<mapsto> False, ''landau_damping'' \<mapsto> False]"

definition physics_on :: "string \<rightharpoonup> bool" where
  "physics_on = [''kinetic_real_wepw'' \<mapsto> True, ''landau_damping'' \<mapsto> True]"

definition example_pulse :: "string \<rightharpoonup> real" where
  "example_pulse = [''k0'' \<mapsto> 1, ''w0'' \<mapsto> 2, ''dw0'' \<mapsto> 0, ''a0'' \<mapsto> 3,
                    ''t_c'' \<mapsto> 4, ''t_w'' \<mapsto> 2, ''t_r'' \<mapsto> 1,
                    ''x_c'' \<mapsto> 0, ''x_w'' \<mapsto> 2, ''x_r'' \<mapsto> 1]"

section \<open>Facts about the transforms\<close>

lemma sum_list_upt0: "(\<Sum>j\<leftarrow>[0..<n]. f j) = sum f {..<n}"
  by (simp add: interv_sum_list_conv_sum_set_nat atLeast0LessThan)

lemma length_fft [simp]: "length (fft a) = length a"
  by (simp add: fft_def Let_def)

lemma length_ifft [simp]: "length (ifft a) = length a"
  by (simp add: ifft_def Let_def)

lemma nth_fft: "k < length a \<Longrightarrow>
  fft a ! k = (\<Sum>j<length a. a ! j * cis (- (2 * pi * real j * real k / real (length a))))"
  by (simp add: fft_def Let_def sum_list_upt0)

lemma nth_ifft: "j < length a \<Longrightarrow>
  ifft a ! j = (\<Sum>k<length a. a ! k * cis (2 * pi * real j * real k / real (length a))) / of_nat (length a)"
  by (simp add: ifft_def Let_def sum_list_upt0)

lemma cis_root_neq_1:
  fixes d :: int
  assumes "0 < N" "\<not> int N dvd d"
  shows "cis (2 * pi * of_int d / real N) \<noteq> 1"
proof
  assume "cis (2 * pi * of_int d / real N) = 1"
  then have "cos (2 * pi * of_int d / real N) = 1"
    by (simp add: complex_eq_iff)
  then obtain k :: int where "2 * pi * of_int d / real N = of_int k * 2 * pi"
    by (auto simp: cos_one_2pi_int)
  with assms(1) have "of_int d = (of_int (k * int N) :: real)"
    by (simp add: field_simps)
  then have "d = k * int N" by (simp only: of_int_eq_iff)
  with assms(2) show False by simp
qed

lemma root_sum:
  fixes d :: int
  assumes "0 < N"
  shows "(\<Sum>k<N. cis (2 * pi * of_int d * real k / real N)) = (if int N dvd d then of_nat N else 0)"
proof (cases "int N dvd d")
  case True
  then obtain q where q: "d = int N * q" by (auto simp: dvd_def)
  have "cis (2 * pi * of_int d * real k / real N) = 1" for k
  proof -
    have "2 * pi * of_int d * real k / real N = 2 * pi * of_int (q * int k)"
      using assms by (simp add: q)
    then show ?thesis by (simp only: cis_multiple_2pi Ints_of_int)
  qed
  then show ?thesis using True by simp
next
  case False
  define w where "w = cis (2 * pi * of_int d / real N)"
  have w1: "w \<noteq> 1" unfolding w_def using assms False by (rule cis_root_neq_1)
  have "(\<Sum>k<N. cis (2 * pi * of_int d * real k / real N)) = (\<Sum>k<N. w ^ k)"
    by (intro sum.cong refl) (simp add: w_def DeMoivre mult_ac)
  also have "\<dots> = (w ^ N - 1) / (w - 1)"
    using w1 by (rule geometric_sum)
  also have "w ^ N = cis (2 * pi * of_int d)"
    using assms by (simp add: w_def DeMoivre)
  also have "\<dots> = 1" by (rule cis_multiple_2pi) simp
  finally show ?thesis using False by simp
qed


lemma sum_list_upt1: "(\<Sum>j\<leftarrow>[m..<n]. f j) = sum f {m..<n}"
  by (simp add: interv_sum_list_conv_sum_set_nat)

lemma cos_kernel:
  fixes d :: int
  assumes "0 < M"
  shows "1 + 2 * (\<Sum>k\<in>{1..<M}. cos (2 * pi * of_int d * real k / real (2 * M)))
           + cos (pi * of_int d)
         = (if int (2 * M) dvd d then real (2 * M) else 0)"
proof -
  define f where "f = (\<lambda>k. cos (2 * pi * of_int d * real k / real (2 * M)))"
  have sym: "f (2 * M - k) = f k" if "k \<le> 2 * M" for k
  proof -
    have "2 * pi * of_int d * real (2 * M - k) / real (2 * M)
          = 2 * pi * of_int d - 2 * pi * of_int d * real k / real (2 * M)"
      using that assms by (simp add: of_nat_diff field_simps)
    moreover have "cos (2 * pi * of_int d - t) = cos t" for t
    proof -
      have "cos (2 * pi * of_int d - t) = cos (t - 2 * pi * of_int d)"
        by (metis cos_minus minus_diff_eq)
      also have "\<dots> = cos t"
        by (simp add: cos_diff)
      finally show ?thesis .
    qed
    ultimately show ?thesis by (simp add: f_def)
  qed
  have split: "{..<2 * M} = insert 0 (insert M ({1..<M} \<union> {M + 1..<2 * M}))"
    using assms by auto
  have "(\<Sum>k<2 * M. f k) = f 0 + (f M + ((\<Sum>k\<in>{1..<M}. f k) + (\<Sum>k\<in>{M + 1..<2 * M}. f k)))"
    unfolding split using assms
    by (subst sum.insert, simp, simp)
       (subst sum.insert, simp, simp, subst sum.union_disjoint, auto)
  moreover have "(\<Sum>k\<in>{M + 1..<2 * M}. f k) = (\<Sum>k\<in>{1..<M}. f k)"
  proof (rule sum.reindex_bij_witness [where i = "\<lambda>k. 2 * M - k" and j = "\<lambda>k. 2 * M - k"])
    fix a assume "a \<in> {M + 1..<2 * M}"
    then show "f (2 * M - a) = f a" by (intro sym) simp
  qed auto
  moreover have "f 0 = 1" by (simp add: f_def)
  moreover have "f M = cos (pi * of_int d)"
    using assms by (simp add: f_def field_simps)
  ultimately have lhs: "1 + 2 * (\<Sum>k\<in>{1..<M}. f k) + cos (pi * of_int d) = (\<Sum>k<2 * M. f k)"
    by simp
  have "(\<Sum>k<2 * M. f k) = Re (\<Sum>k<2 * M. cis (2 * pi * of_int d * real k / real (2 * M)))"
    by (simp add: f_def)
  also have "(\<Sum>k<2 * M. cis (2 * pi * of_int d * real k / real (2 * M)))
                 = (if int (2 * M) dvd d then of_nat (2 * M) else 0)"
    using assms by (intro root_sum) simp
  also have "Re (if int (2 * M) dvd d then of_nat (2 * M) else 0)
             = (if int (2 * M) dvd d then real (2 * M) else 0)"
    by simp
  finally have "1 + 2 * (\<Sum>k\<in>{1..<M}. f k) + cos (pi * of_int d)
      = (if int (2 * M) dvd d then real (2 * M) else 0)"
    using lhs by simp
  then show ?thesis unfolding f_def .
qed


lemma length_rfft: "length (rfft a) = min (length a div 2 + 1) (length a)"
  by (simp add: rfft_def)

lemma length_irfft [simp]: "length (irfft a) = 2 * (length a - 1)"
  by (simp add: irfft_def Let_def)

lemma nth_rfft:
  assumes "k \<le> length a div 2" "k < length a"
  shows "rfft a ! k = (\<Sum>l<length a. complex_of_real (a ! l)
           * cis (- (2 * pi * real l * real k / real (length a))))"
  using assms by (simp add: rfft_def nth_fft)

lemma Re_rfft_cis:
  assumes "k \<le> length x div 2" "k < length x"
  shows "Re (rfft x ! k * cis (2 * pi * real j * real k / real (length x)))
         = (\<Sum>l<length x. x ! l * cos (2 * pi * of_int (int j - int l) * real k / real (length x)))"
proof -
  have "rfft x ! k * cis (2 * pi * real j * real k / real (length x))
        = (\<Sum>l<length x. complex_of_real (x ! l)
             * cis (2 * pi * of_int (int j - int l) * real k / real (length x)))"
    unfolding nth_rfft [OF assms] sum_distrib_right
  proof (rule sum.cong [OF refl])
    fix l
    have "cis (- (2 * pi * real l * real k / real (length x)))
            * cis (2 * pi * real j * real k / real (length x))
          = cis (2 * pi * of_int (int j - int l) * real k / real (length x))"
      unfolding cis_mult by (rule arg_cong [where f = cis]) (simp add: algebra_simps diff_divide_distrib)
    then show "complex_of_real (x ! l) * cis (- (2 * pi * real l * real k / real (length x)))
            * cis (2 * pi * real j * real k / real (length x))
          = complex_of_real (x ! l) * cis (2 * pi * of_int (int j - int l) * real k / real (length x))"
      by (simp add: mult.assoc)
  qed
  then show ?thesis by simp
qed

lemma nth_irfft:
  assumes "j < 2 * (length a - 1)"
  shows "irfft a ! j = (Re (a ! 0)
     + 2 * (\<Sum>k\<in>{1..<length a - 1}. Re (a ! k * cis (2 * pi * real j * real k / real (2 * (length a - 1)))))
     + Re (a ! (length a - 1)) * cos (pi * real j)) / real (2 * (length a - 1))"
  using assms by (simp add: irfft_def Let_def sum_list_upt1)

lemma irfft_rfft_nth:
  assumes len: "length x = 2 * M" and M: "0 < M" and j: "j < 2 * M"
  shows "irfft (rfft x) ! j = x ! j"
proof -
  let ?N = "2 * M"
  have lr: "length (rfft x) = M + 1" using len M by (simp add: length_rfft)
  define c where "c = (\<lambda>l k. cos (2 * pi * of_int (int j - int l) * real k / real (2 * M)))"
  have R: "Re (rfft x ! k * cis (2 * pi * real j * real k / real (2 * M)))
           = (\<Sum>l<2 * M. x ! l * c l k)" if "k \<le> M" for k
    using Re_rfft_cis [of k x j] that len M by (simp add: c_def)
  have R0: "Re (rfft x ! 0) = (\<Sum>l<2 * M. x ! l * c l 0)"
    using R [of 0] by simp
  have RM: "Re (rfft x ! M) * cos (pi * real j) = (\<Sum>l<2 * M. x ! l * cos (pi * of_int (int j - int l)))"
  proof -
    have "Re (rfft x ! M) = (\<Sum>l<2 * M. x ! l * cos (pi * real l))"
      using len M by (simp add: nth_rfft field_simps)
    moreover have "cos (pi * real l) * cos (pi * real j) = cos (pi * of_int (int j - int l))" for l
    proof -
      have "pi * of_int (int j - int l) = pi * real j - pi * real l"
        by (simp add: algebra_simps)
      then show ?thesis by (simp add: cos_diff)
    qed
    ultimately show ?thesis
      by (simp add: sum_distrib_right mult.assoc)
  qed
  have "irfft (rfft x) ! j
        = ((\<Sum>l<2 * M. x ! l * c l 0)
           + 2 * (\<Sum>k\<in>{1..<M}. \<Sum>l<2 * M. x ! l * c l k)
           + (\<Sum>l<2 * M. x ! l * cos (pi * of_int (int j - int l)))) / real (2 * M)"
    using j R0 RM R by (simp add: nth_irfft lr)
  also have "(\<Sum>k\<in>{1..<M}. \<Sum>l<2 * M. x ! l * c l k) = (\<Sum>l<2 * M. x ! l * (\<Sum>k\<in>{1..<M}. c l k))"
    by (subst sum.swap) (simp add: sum_distrib_left)
  also have "(\<Sum>l<2 * M. x ! l * c l 0) + 2 * (\<Sum>l<2 * M. x ! l * (\<Sum>k\<in>{1..<M}. c l k))
              + (\<Sum>l<2 * M. x ! l * cos (pi * of_int (int j - int l)))
             = (\<Sum>l<2 * M. x ! l * (1 + 2 * (\<Sum>k\<in>{1..<M}. c l k) + cos (pi * of_int (int j - int l))))"
    by (simp add: c_def sum.distrib sum_distrib_left algebra_simps)
  also have "\<dots> = (\<Sum>l<2 * M. x ! l * (if l = j then real (2 * M) else 0))"
  proof (rule sum.cong [OF refl])
    fix l assume "l \<in> {..<2 * M}"
    then have l: "l < 2 * M" by simp
    have "int (2 * M) dvd (int j - int l) \<longleftrightarrow> l = j"
    proof
      assume d: "int (2 * M) dvd (int j - int l)"
      have "\<bar>int j - int l\<bar> < int (2 * M)" using j l by linarith
      with d have "int j - int l = 0"
        using zdvd_not_zless [of "\<bar>int j - int l\<bar>" "int (2 * M)"]
        by (cases "int j - int l = 0") auto
      then show "l = j" by simp
    qed simp
    then show "x ! l * (1 + 2 * (\<Sum>k\<in>{1..<M}. c l k) + cos (pi * of_int (int j - int l)))
               = x ! l * (if l = j then real (2 * M) else 0)"
      unfolding c_def using cos_kernel [OF M, of "int j - int l"] by simp
  qed
  also have "\<dots> = (\<Sum>l<2 * M. if l = j then x ! j * real (2 * M) else 0)"
    by (intro sum.cong refl) simp
  also have "\<dots> = x ! j * real (2 * M)"
    using j by (simp only: sum.delta finite_lessThan lessThan_iff if_True)
  finally show ?thesis using M by simp
qed

lemma irfft_rfft:
  assumes "even (length x)" "0 < length x"
  shows "irfft (rfft x) = x"
proof -
  from assms obtain M where M: "length x = 2 * M" "0 < M" by (auto elim: evenE)
  show ?thesis
  proof (rule nth_equalityI)
    show "length (irfft (rfft x)) = length x" using M by (simp add: length_rfft)
  next
    fix j assume "j < length (irfft (rfft x))"
    then have "j < 2 * M" using M by (simp add: length_rfft)
    then show "irfft (rfft x) ! j = x ! j" using M by (intro irfft_rfft_nth)
  qed
qed

lemma bcast_same: "length xs = length ys \<Longrightarrow> bcast f xs ys = Some (map2 f xs ys)"
  by (simp add: bcast_def)

lemma gradient_same:
  assumes "length kx = length arr"
  shows "gradient arr kx = Some (map Re (ifft (map2 (*) (map (\<lambda>k. \<i> * complex_of_real k) kx)
                                               (fft (map complex_of_real arr)))))"
  using assms by (simp add: gradient_def bcast_same)

lemma gradient_nth:
  assumes "length kx = length arr" "j < length arr"
  shows "\<exists>r. gradient arr kx = Some r \<and> length r = length arr \<and>
     r ! j = Re ((\<Sum>k<length arr. \<i> * complex_of_real (kx ! k) * fft (map complex_of_real arr) ! k
                     * cis (2 * pi * real j * real k / real (length arr))) / of_nat (length arr))"
  using assms by (simp add: gradient_same nth_ifft)

lemma fft_replicate:
  assumes "k < N"
  shows "fft (replicate N c) ! k = (if k = 0 then of_nat N * c else 0)"
proof -
  have N: "0 < N" using assms by simp
  have "fft (replicate N c) ! k = (\<Sum>j<N. c * cis (- (2 * pi * real j * real k / real N)))"
    using assms by (simp add: nth_fft)
  also have "\<dots> = c * (\<Sum>j<N. cis (2 * pi * of_int (- int k) * real j / real N))"
    unfolding sum_distrib_left
    by (intro sum.cong refl) (simp add: mult_ac)
  also have "(\<Sum>j<N. cis (2 * pi * of_int (- int k) * real j / real N))
             = (if int N dvd - int k then of_nat N else 0)"
    using N by (rule root_sum)
  also have "int N dvd - int k \<longleftrightarrow> k = 0"
    using assms by (auto dest: nat_dvd_not_less)
  finally show ?thesis by simp
qed

lemma ifft_zero: "ifft (replicate N 0) = replicate N 0"
  by (rule nth_equalityI) (simp_all add: nth_ifft)

lemma fft_zero: "fft (replicate N 0) = replicate N 0"
  by (rule nth_equalityI) (simp_all add: nth_fft)

lemma gradient_const:
  assumes "length kx = N" "0 < N" "kx ! 0 = 0"
  shows "gradient (replicate N c) kx = Some (replicate N 0)"
proof -
  have "map2 (*) (map (\<lambda>k. \<i> * complex_of_real k) kx) (fft (map complex_of_real (replicate N c)))
        = replicate N 0"
  proof (rule nth_equalityI)
    fix k assume "k < length (map2 (*) (map (\<lambda>k. \<i> * complex_of_real k) kx)
                                (fft (map complex_of_real (replicate N c))))"
    then have k: "k < N" using assms by simp
    then show "map2 (*) (map (\<lambda>k. \<i> * complex_of_real k) kx)
                 (fft (map complex_of_real (replicate N c))) ! k = replicate N 0 ! k"
      using assms by (simp add: fft_replicate)
  qed (use assms in simp)
  then show ?thesis
    using assms by (simp add: gradient_same ifft_zero)
qed

lemma rfft_zero: "rfft (replicate N 0) = replicate (min (N div 2 + 1) N) 0"
  using fft_zero [of N] by (simp add: rfft_def)

lemma irfft_zero: "irfft (replicate m 0) = replicate (2 * (m - 1)) 0"
proof (rule nth_equalityI)
  fix j assume "j < length (irfft (replicate m (0::complex)))"
  then have j: "j < 2 * (m - 1)" by simp
  have "(\<Sum>k\<in>{1..<m - 1}. Re (replicate m (0::complex) ! k
           * cis (2 * pi * real j * real k / real (2 * (m - 1))))) = 0"
    by (rule sum.neutral) auto
  then show "irfft (replicate m 0) ! j = replicate (2 * (m - 1)) 0 ! j"
    using j by (simp only: nth_irfft length_replicate) simp
qed simp

section \<open>Facts about the frequency table and the interpolation\<close>

lemma length_linspace [simp]: "length (linspace a b n) = n"
  by (simp add: linspace_def)

lemma nth_linspace:
  assumes "1 < n" "i < n"
  shows "linspace a b n ! i = real i * ((b - a) / real (n - 1)) + a"
proof (cases "i < n - 1")
  case True
  then show ?thesis using assms by (simp add: linspace_def nth_append)
next
  case False
  then have i: "i = n - 1" using assms by simp
  have "linspace a b n ! i = b" using assms by (simp add: linspace_def nth_append i)
  moreover have "real (n - 1) * ((b - a) / real (n - 1)) + a = b" using assms by simp
  ultimately show ?thesis by (simp only: i)
qed

lemma linspace_strict:
  assumes "1 < n" "a < b"
  shows "sorted_wrt (<) (linspace a b n)"
proof -
  have step: "0 < (b - a) / real (n - 1)" using assms by simp
  show ?thesis
    unfolding sorted_wrt_iff_nth_less
  proof (intro allI impI)
    fix i j assume "i < j" "j < length (linspace a b n)"
    then have ij: "i < n" "j < n" "real i < real j" by simp_all
    then have "real i * ((b - a) / real (n - 1)) < real j * ((b - a) / real (n - 1))"
      using step by (simp only: mult_strict_right_mono)
    then show "linspace a b n ! i < linspace a b n ! j"
      using assms(1) ij by (simp only: nth_linspace add_less_cancel_right)
  qed
qed

lemma table_loop_enumerate:
  assumes "s + length ks \<le> length wrs" "length wis = length wrs"
  shows "\<exists>wrs' wis'. table_loop solve (enumerate s ks) wrs wis = Some (wrs', wis')
     \<and> length wrs' = length wrs \<and> length wis' = length wrs
     \<and> (\<forall>j<length wrs. wrs' ! j = (if s \<le> j \<and> j < s + length ks
                                      then Re (solve 1 1 (ks ! (j - s))) else wrs ! j))
     \<and> (\<forall>j<length wrs. wis' ! j = (if s \<le> j \<and> j < s + length ks
                                      then Im (solve 1 1 (ks ! (j - s))) else wis ! j))"
  using assms
proof (induction ks arbitrary: s wrs wis)
  case Nil
  then show ?case by simp
next
  case (Cons k ks)
  let ?wrs = "wrs[s := Re (solve 1 1 k)]" and ?wis = "wis[s := Im (solve 1 1 k)]"
  have s: "s < length wrs" "s < length wis" using Cons.prems by simp_all
  have "Suc s + length ks \<le> length ?wrs" "length ?wis = length ?wrs"
    using Cons.prems by simp_all
  from Cons.IH [OF this] obtain wrs' wis' where
    run: "table_loop solve (enumerate (Suc s) ks) ?wrs ?wis = Some (wrs', wis')"
    and len: "length wrs' = length wrs" "length wis' = length wrs"
    and r: "\<forall>j<length wrs. wrs' ! j = (if Suc s \<le> j \<and> j < Suc s + length ks
                                      then Re (solve 1 1 (ks ! (j - Suc s))) else ?wrs ! j)"
    and i: "\<forall>j<length wrs. wis' ! j = (if Suc s \<le> j \<and> j < Suc s + length ks
                                      then Im (solve 1 1 (ks ! (j - Suc s))) else ?wis ! j)"
    by auto
  have "table_loop solve (enumerate s (k # ks)) wrs wis = Some (wrs', wis')"
    using s run by simp
  moreover have "wrs' ! j = (if s \<le> j \<and> j < s + length (k # ks)
                   then Re (solve 1 1 ((k # ks) ! (j - s))) else wrs ! j)" if "j < length wrs" for j
  proof (cases "j = s")
    case True
    then show ?thesis using r that s by simp
  next
    case False
    then show ?thesis using r that s
      by (auto simp: nth_Cons' Suc_diff_Suc)
  qed
  moreover have "wis' ! j = (if s \<le> j \<and> j < s + length (k # ks)
                   then Im (solve 1 1 ((k # ks) ! (j - s))) else wis ! j)" if "j < length wrs" for j
  proof (cases "j = s")
    case True
    then show ?thesis using i that s by simp
  next
    case False
    then show ?thesis using i that s Cons.prems(2)
      by (auto simp: nth_Cons' Suc_diff_Suc)
  qed
  ultimately show ?case using len by blast
qed

lemma table_loop_short:
  assumes "s \<le> length wrs" "length wrs < s + length ks"
  shows "table_loop solve (enumerate s ks) wrs wis = None"
  using assms
proof (induction ks arbitrary: s wrs wis)
  case Nil
  then show ?case by simp
next
  case (Cons k ks)
  show ?case
  proof (cases "s < length wrs \<and> s < length wis")
    case True
    have "table_loop solve (enumerate (Suc s) ks) (wrs[s := Re (solve 1 1 k)])
            (wis[s := Im (solve 1 1 k)]) = None"
      using True Cons.prems by (intro Cons.IH) simp_all
    then show ?thesis using True by simp
  next
    case False
    then show ?thesis by auto
  qed
qed


lemma table_ge:
  assumes "128 \<le> num"
  shows "\<exists>wrs wis. get_complex_frequency_table solve num
            = Some (wrs, wis, linspace (2 / 10) (4 / 10) 128)
     \<and> length wrs = num \<and> length wis = num
     \<and> (\<forall>j<num. wrs ! j = (if j < 128 then Re (solve 1 1 (linspace (2 / 10) (4 / 10) 128 ! j)) else 0))
     \<and> (\<forall>j<num. wis ! j = (if j < 128 then Im (solve 1 1 (linspace (2 / 10) (4 / 10) 128 ! j)) else 0))"
proof -
  let ?k = "linspace (2 / 10) (4 / 10) 128"
  have "0 + length ?k \<le> length (replicate num (0::real))"
       "length (replicate num (0::real)) = length (replicate num (0::real))"
    using assms by simp_all
  from table_loop_enumerate [OF this, of solve] obtain wrs wis where
    "table_loop solve (enumerate 0 ?k) (replicate num 0) (replicate num 0) = Some (wrs, wis)"
    "length wrs = num" "length wis = num"
    "\<forall>j<num. wrs ! j = (if j < 128 then Re (solve 1 1 (?k ! j)) else 0)"
    "\<forall>j<num. wis ! j = (if j < 128 then Im (solve 1 1 (?k ! j)) else 0)"
    by auto
  then show ?thesis
    by (simp add: get_complex_frequency_table_def)
qed

lemma table_short:
  assumes "num < 128"
  shows "get_complex_frequency_table solve num = None"
proof -
  have "table_loop solve (enumerate 0 (linspace (2 / 10) (4 / 10) 128))
          (replicate num 0) (replicate num 0) = None"
    using assms by (intro table_loop_short) simp_all
  then show ?thesis by (simp add: get_complex_frequency_table_def)
qed

lemma klds_nth:
  assumes "i < 128"
  shows "linspace (2 / 10) (4 / 10) 128 ! i = 2 / 10 + real i * (2 / 1270)"
  using assms by (simp add: nth_linspace)

lemma klds_first: "linspace (2 / 10) (4 / 10) 128 ! 0 = 2 / 10"
  using klds_nth [of 0] by simp

lemma klds_last: "last (linspace (2 / 10) (4 / 10) 128) = 4 / 10"
proof -
  have "linspace (2 / 10) (4 / 10) 128 \<noteq> []"
    by (metis length_linspace list.size(3) zero_neq_numeral)
  then have "last (linspace (2 / 10) (4 / 10) 128) = linspace (2 / 10) (4 / 10) 128 ! 127"
    by (simp add: last_conv_nth)
  then show ?thesis using klds_nth [of 127] by simp
qed

lemma klds_strict: "sorted_wrt (<) (linspace (2 / 10) (4 / 10) 128)"
  by (rule linspace_strict) simp_all

lemma interp1_right: "last xp < x \<Longrightarrow> interp1 xp fp l r x = r"
  by (simp add: interp1_def Let_def)

lemma interp1_left: "x < xp ! 0 \<Longrightarrow> x \<le> last xp \<Longrightarrow> interp1 xp fp l r x = l"
  by (simp add: interp1_def Let_def)

lemma searchsorted_right_sorted:
  fixes xp :: "real list"
  assumes "sorted_wrt (<) xp" "i < length xp" "xp ! i \<le> x" "Suc i < length xp \<longrightarrow> x < xp ! Suc i"
  shows "searchsorted_right xp x = Suc i"
proof -
  have le: "v \<le> x" if "v \<in> set (take (Suc i) xp)" for v
  proof -
    from that obtain j where j: "j < Suc i" "j < length xp" "v = xp ! j"
      by (auto simp: in_set_conv_nth)
    have "xp ! j \<le> xp ! i"
    proof (cases "j = i")
      case False
      then have "j < i" using j by simp
      then show ?thesis using assms(1,2) by (simp add: sorted_wrt_iff_nth_less less_imp_le)
    qed simp
    then show ?thesis using j assms(3) by simp
  qed
  have gt: "\<not> v \<le> x" if "v \<in> set (drop (Suc i) xp)" for v
  proof -
    from that obtain j0 where "j0 < length (drop (Suc i) xp)" "v = drop (Suc i) xp ! j0"
      by (metis in_set_conv_nth)
    then have "Suc i + j0 < length xp" "v = xp ! (Suc i + j0)" by simp_all
    then obtain j where j: "Suc i + j < length xp" "v = xp ! (Suc i + j)" by blast
    then have "x < xp ! Suc i" using assms(4) by simp
    moreover have "xp ! Suc i \<le> xp ! (Suc i + j)"
    proof (cases "j = 0")
      case False
      then have "Suc i < Suc i + j" by simp
      then show ?thesis using assms(1) j(1) by (simp add: sorted_wrt_iff_nth_less less_imp_le)
    qed simp
    ultimately show ?thesis using j by simp
  qed
  have "filter (\<lambda>v. v \<le> x) xp
        = filter (\<lambda>v. v \<le> x) (take (Suc i) xp) @ filter (\<lambda>v. v \<le> x) (drop (Suc i) xp)"
    by (metis append_take_drop_id filter_append)
  also have "filter (\<lambda>v. v \<le> x) (take (Suc i) xp) = take (Suc i) xp"
    using le by (simp add: filter_id_conv)
  also have "filter (\<lambda>v. v \<le> x) (drop (Suc i) xp) = []"
    using gt by (simp add: filter_empty_conv)
  finally show ?thesis using assms(2) by (simp add: searchsorted_right_def)
qed

lemma sorted_first_le:
  fixes xp :: "real list"
  assumes "sorted_wrt (<) xp" "i < length xp"
  shows "xp ! 0 \<le> xp ! i"
  using assms by (cases "i = 0") (simp_all add: sorted_wrt_iff_nth_less less_imp_le)

lemma sorted_le_last:
  fixes xp :: "real list"
  assumes "sorted_wrt (<) xp" "i < length xp"
  shows "xp ! i \<le> last xp"
proof (cases "i = length xp - 1")
  case True
  moreover have "xp \<noteq> []" using assms(2) by auto
  ultimately show ?thesis by (simp add: last_conv_nth)
next
  case False
  then have "i < length xp - 1" "length xp - 1 < length xp" using assms by simp_all
  then have "xp ! i < xp ! (length xp - 1)" using assms(1) by (rule sorted_wrt_nth_less [rotated])
  moreover have "xp \<noteq> []" using assms(2) by auto
  ultimately show ?thesis by (simp add: last_conv_nth)
qed

lemma interp1_interior:
  assumes "sorted_wrt (<) xp" "Suc i < length xp" "xp ! i \<le> x" "x < xp ! Suc i"
  shows "interp1 xp fp l r x
         = fp ! i + (x - xp ! i) / (xp ! Suc i - xp ! i) * (fp ! Suc i - fp ! i)"
proof -
  have ss: "searchsorted_right xp x = Suc i"
    using assms by (intro searchsorted_right_sorted) simp_all
  have clip: "min (max (Suc i) 1) (length xp - 1) = Suc i" using assms(2) by simp
  have "xp ! i < xp ! Suc i"
    using assms(1) _ assms(2) by (rule sorted_wrt_nth_less) simp
  then have dx: "xp ! Suc i - xp ! i \<noteq> 0" by simp
  have lo: "\<not> x < xp ! 0" using sorted_first_le [OF assms(1), of i] assms(2,3) by simp
  have hi: "\<not> last xp < x" using sorted_le_last [OF assms(1), of "Suc i"] assms(2,4) by simp
  show ?thesis
    unfolding interp1_def Let_def ss clip using dx lo hi by simp
qed

lemma interp1_at_last:
  assumes "sorted_wrt (<) xp" "2 \<le> length xp"
  shows "interp1 xp fp l r (last xp) = fp ! (length xp - 1)"
proof -
  let ?n = "length xp - 1"
  have n: "?n < length xp" "0 < ?n" "?n - 1 < ?n" using assms(2) by simp_all
  have "xp \<noteq> []" using assms(2) by auto
  then have lst: "last xp = xp ! ?n" by (simp add: last_conv_nth)
  have "\<not> Suc ?n < length xp" using assms(2) by arith
  then have "Suc ?n < length xp \<longrightarrow> last xp < xp ! Suc ?n" by blast
  moreover have "xp ! ?n \<le> last xp" by (simp only: lst)
  ultimately have ss: "searchsorted_right xp (last xp) = Suc ?n"
    using assms(1) n(1) by (intro searchsorted_right_sorted)
  have clip: "min (max (Suc ?n) 1) ?n = ?n" by simp
  have "xp ! (?n - 1) < xp ! ?n"
    using assms(1) n(3,1) by (rule sorted_wrt_nth_less)
  then have dx: "xp ! ?n - xp ! (?n - 1) \<noteq> 0" by simp
  have lo: "\<not> xp ! ?n < xp ! 0" using sorted_first_le [OF assms(1) n(1)] by simp
  show ?thesis
    unfolding interp1_def Let_def ss clip unfolding lst using dx lo by simp
qed

section \<open>Linearity of the spectral gradient\<close>

lemma fft_lincomb_nth:
  assumes "length g = length f" "k < length f"
  shows "fft (map complex_of_real (map2 (+) (map (\<lambda>x. a * x) f) (map (\<lambda>x. b * x) g))) ! k
         = complex_of_real a * fft (map complex_of_real f) ! k
           + complex_of_real b * fft (map complex_of_real g) ! k"
  using assms by (simp add: nth_fft algebra_simps sum.distrib sum_distrib_left)

lemma gradient_lincomb_nth:
  assumes fg: "length g = length f" and k: "length k = length f" and j: "j < length f"
  shows "the (gradient (map2 (+) (map (\<lambda>x. a * x) f) (map (\<lambda>x. b * x) g)) k) ! j
         = a * the (gradient f k) ! j + b * the (gradient g k) ! j"
proof -
  let ?N = "length f"
  let ?h = "map2 (+) (map (\<lambda>x. a * x) f) (map (\<lambda>x. b * x) g)"
  define c where "c = (\<lambda>i. \<i> * complex_of_real (k ! i) * cis (2 * pi * real j * real i / real ?N))"
  define F where "F = fft (map complex_of_real f)"
  define G where "G = fft (map complex_of_real g)"
  have lh: "length ?h = ?N" using fg by simp
  have H: "the (gradient ?h k) ! j
           = Re ((\<Sum>i<?N. c i * (complex_of_real a * F ! i + complex_of_real b * G ! i)) / of_nat ?N)"
  proof -
    have "(\<Sum>i<?N. \<i> * complex_of_real (k ! i) * fft (map complex_of_real ?h) ! i
              * cis (2 * pi * real j * real i / real ?N))
          = (\<Sum>i<?N. c i * (complex_of_real a * F ! i + complex_of_real b * G ! i))"
    proof (rule sum.cong [OF refl])
      fix i assume "i \<in> {..<?N}"
      then have i: "i < ?N" by simp
      show "\<i> * complex_of_real (k ! i) * fft (map complex_of_real ?h) ! i
              * cis (2 * pi * real j * real i / real ?N)
            = c i * (complex_of_real a * F ! i + complex_of_real b * G ! i)"
        unfolding fft_lincomb_nth [OF fg i] c_def F_def G_def by (simp add: mult_ac)
    qed
    then show ?thesis
      using gradient_nth [of k ?h j] k j lh by auto
  qed
  have Ff: "the (gradient f k) ! j = Re ((\<Sum>i<?N. c i * F ! i) / of_nat ?N)"
    using gradient_nth [of k f j] k j by (auto simp: c_def F_def mult_ac)
  have Gg: "the (gradient g k) ! j = Re ((\<Sum>i<?N. c i * G ! i) / of_nat ?N)"
    using gradient_nth [of k g j] k j fg by (auto simp: c_def G_def mult_ac)
  have "(\<Sum>i<?N. c i * (complex_of_real a * F ! i + complex_of_real b * G ! i)) / of_nat ?N
        = complex_of_real a * ((\<Sum>i<?N. c i * F ! i) / of_nat ?N)
          + complex_of_real b * ((\<Sum>i<?N. c i * G ! i) / of_nat ?N)"
    by (simp add: algebra_simps sum.distrib sum_distrib_left add_divide_distrib)
  then show ?thesis
    unfolding H Ff Gg by simp
qed

text \<open>
  C9. The spectral gradient \<open>real (ifft (\<i> k fft f))\<close> is linear: for scalars \<open>a\<close>, \<open>b\<close>
  and arrays \<open>f\<close>, \<open>g\<close>, \<open>k\<close> of one length, the gradient of \<open>a f + b g\<close> is returned and
  equals \<open>a\<close> times the gradient of \<open>f\<close> plus \<open>b\<close> times the gradient of \<open>g\<close>.
\<close>

theorem gradient_linear:
  assumes "length g = length f" "length k = length f"
  shows "\<exists>h df dg. lincomb a f b g = Some h \<and> gradient f k = Some df \<and> gradient g k = Some dg
           \<and> gradient h k \<noteq> None \<and> gradient h k = lincomb a df b dg"
proof -
  let ?h = "map2 (+) (map (\<lambda>x. a * x) f) (map (\<lambda>x. b * x) g)"
  obtain df where df: "gradient f k = Some df" "length df = length f"
    using assms by (simp add: gradient_same)
  obtain dg where dg: "gradient g k = Some dg" "length dg = length f"
    using assms by (simp add: gradient_same)
  obtain dh where dh: "gradient ?h k = Some dh" "length dh = length f"
    using assms by (simp add: gradient_same)
  have h: "lincomb a f b g = Some ?h"
    using assms by (simp add: lincomb_def bcast_same)
  have "dh = map2 (+) (map (\<lambda>x. a * x) df) (map (\<lambda>x. b * x) dg)"
  proof (rule nth_equalityI)
    fix j assume "j < length dh"
    then have j: "j < length f" using dh by simp
    show "dh ! j = map2 (+) (map (\<lambda>x. a * x) df) (map (\<lambda>x. b * x) dg) ! j"
      using gradient_lincomb_nth [OF assms j, of a b] j df dg dh by simp
  qed (use df dg dh in simp)
  then have "gradient ?h k = lincomb a df b dg"
    using df dg dh by (simp add: lincomb_def bcast_same)
  with h df dg dh show ?thesis
    by (intro exI [of _ ?h] exI [of _ df] exI [of _ dg]) simp
qed

theorem gradient_linear_witness:
  "\<exists>h df dg. lincomb 2 [1, 2] 3 [4, 5] = Some h \<and> gradient [1, 2] [0, 1] = Some df
      \<and> gradient [4, 5] [0, 1] = Some dg
      \<and> gradient h [0, 1] \<noteq> None \<and> gradient h [0, 1] = lincomb 2 df 3 dg"
  by (rule gradient_linear) simp_all

section \<open>The Poisson solver and the mean of the field\<close>







section \<open>The drive field\<close>

lemma Driver_entry:
  "map_option (\<lambda>v. v * s)
     (do { et \<leftarrow> get_envelope rt rt (tc - tw * 0.5) (tc + tw * 0.5) t;
           e \<leftarrow> get_envelope rx rx (xc - xw * 0.5) (xc + xw * 0.5) xi;
           Some (et * e * k * a) })
   = do { a1 \<leftarrow> tanh_quotient (t - (tc - tw / 2)) rt;
          b1 \<leftarrow> tanh_quotient (t - (tc + tw / 2)) rt;
          c1 \<leftarrow> tanh_quotient (xi - (xc - xw / 2)) rx;
          d1 \<leftarrow> tanh_quotient (xi - (xc + xw / 2)) rx;
          Some (0.5 * (a1 - b1) * (0.5 * (c1 - d1)) * k * a * s) }"
  by (cases "tanh_quotient (t - (tc - tw / 2)) rt"; cases "tanh_quotient (t - (tc + tw / 2)) rt";
      cases "tanh_quotient (xi - (xc - xw / 2)) rx"; cases "tanh_quotient (xi - (xc + xw / 2)) rx")
     (simp_all add: get_envelope_def)

lemma Driver_call_eq:
  assumes "this_pulse ''k0'' = Some k0" "this_pulse ''w0'' = Some w0"
    "this_pulse ''dw0'' = Some dw0" "this_pulse ''a0'' = Some a0"
    "this_pulse ''t_c'' = Some t_c" "this_pulse ''t_w'' = Some t_w" "this_pulse ''t_r'' = Some t_r"
    "this_pulse ''x_c'' = Some x_c" "this_pulse ''x_w'' = Some x_w" "this_pulse ''x_r'' = Some x_r"
  shows "Driver_call (Driver_init x) this_pulse t
         = Some (map (\<lambda>xi. do {
              a \<leftarrow> tanh_quotient (t - (t_c - t_w / 2)) t_r;
              b \<leftarrow> tanh_quotient (t - (t_c + t_w / 2)) t_r;
              c \<leftarrow> tanh_quotient (xi - (x_c - x_w / 2)) x_r;
              d \<leftarrow> tanh_quotient (xi - (x_c + x_w / 2)) x_r;
              Some (0.5 * (a - b) * (0.5 * (c - d)) * \<bar>k0\<bar> * a0
                    * sin (k0 * xi - (w0 + dw0) * t)) }) x)"
proof -
  have "Driver_call (Driver_init x) this_pulse t
        = Some (map (\<lambda>xi. map_option (\<lambda>v. v * sin (k0 * xi - (w0 + dw0) * t))
            (do { et \<leftarrow> get_envelope t_r t_r (t_c - t_w * 0.5) (t_c + t_w * 0.5) t;
                  e \<leftarrow> get_envelope x_r x_r (x_c - x_w * 0.5) (x_c + x_w * 0.5) xi;
                  Some (et * e * \<bar>k0\<bar> * a0) })) x)"
    using assms
    by (simp add: Driver_call_def Driver_init_def get_envelope_arr_def bcast_same
        zip_map_map zip_same_conv_map o_def)
  then show ?thesis by (simp only: Driver_entry)
qed

text \<open>
  C6. For a pulse that holds the ten parameters and every time \<open>t\<close>, the driver returns,
  entry by entry over the grid \<open>x\<close>,
  \<open>envelope_t(t) * envelope_x(x) * \<bar>k0\<bar> * a0 * sin (k0 x - (w0 + dw0) t)\<close>, where
  \<open>envelope_t(t) = 0.5 (tanh ((t - t_L) / t_r) - tanh ((t - t_R) / t_r))\<close> with
  \<open>t_L = t_c - t_w / 2\<close> and \<open>t_R = t_c + t_w / 2\<close>, and \<open>envelope_x\<close> is the same window with
  centre \<open>x_c\<close>, width \<open>x_w\<close> and rise \<open>x_r\<close>. The first equation reads
  \<open>tanh (\<dots> / r)\<close> as the array library computes it, for every rise scale, 0 included; the
  second is the formula over the real numbers, for rise scales that are not 0. No width
  is treated apart: both hold for \<open>t_w = 0\<close> and \<open>x_w = 0\<close> as for every other value.
\<close>

theorem Driver_formula:
  assumes "this_pulse ''k0'' = Some k0" "this_pulse ''w0'' = Some w0"
    "this_pulse ''dw0'' = Some dw0" "this_pulse ''a0'' = Some a0"
    "this_pulse ''t_c'' = Some t_c" "this_pulse ''t_w'' = Some t_w" "this_pulse ''t_r'' = Some t_r"
    "this_pulse ''x_c'' = Some x_c" "this_pulse ''x_w'' = Some x_w" "this_pulse ''x_r'' = Some x_r"
  shows "Driver_call (Driver_init x) this_pulse t
         = Some (map (\<lambda>xi. do {
              a \<leftarrow> tanh_quotient (t - (t_c - t_w / 2)) t_r;
              b \<leftarrow> tanh_quotient (t - (t_c + t_w / 2)) t_r;
              c \<leftarrow> tanh_quotient (xi - (x_c - x_w / 2)) x_r;
              d \<leftarrow> tanh_quotient (xi - (x_c + x_w / 2)) x_r;
              Some (0.5 * (a - b) * (0.5 * (c - d)) * \<bar>k0\<bar> * a0
                    * sin (k0 * xi - (w0 + dw0) * t)) }) x)
     \<and> (t_r \<noteq> 0 \<and> x_r \<noteq> 0 \<longrightarrow>
          Driver_call (Driver_init x) this_pulse t
          = Some (map (\<lambda>xi. Some (
              (0.5 * (tanh ((t - (t_c - t_w / 2)) / t_r) - tanh ((t - (t_c + t_w / 2)) / t_r)))
              * (0.5 * (tanh ((xi - (x_c - x_w / 2)) / x_r) - tanh ((xi - (x_c + x_w / 2)) / x_r)))
              * \<bar>k0\<bar> * a0 * sin (k0 * xi - (w0 + dw0) * t))) x))"
  unfolding Driver_call_eq [OF assms] by (simp add: tanh_quotient_def)

theorem Driver_formula_witness:
  "Driver_call (Driver_init [0, 1]) example_pulse 4
         = Some (map (\<lambda>xi. Some (
              (0.5 * (tanh ((4 - (4 - 2 / 2)) / 1) - tanh ((4 - (4 + 2 / 2)) / 1)))
              * (0.5 * (tanh ((xi - (0 - 2 / 2)) / 1) - tanh ((xi - (0 + 2 / 2)) / 1)))
              * \<bar>1\<bar> * 3 * sin (1 * xi - (2 + 0) * 4))) [0, 1])"
proof -
  have "(1::real) \<noteq> 0 \<and> (1::real) \<noteq> 0" by simp
  moreover have "example_pulse ''k0'' = Some 1" "example_pulse ''w0'' = Some 2"
    "example_pulse ''dw0'' = Some 0" "example_pulse ''a0'' = Some 3"
    "example_pulse ''t_c'' = Some 4" "example_pulse ''t_w'' = Some 2"
    "example_pulse ''t_r'' = Some 1" "example_pulse ''x_c'' = Some 0"
    "example_pulse ''x_w'' = Some 2" "example_pulse ''x_r'' = Some 1"
    by (simp_all add: example_pulse_def)
  ultimately show ?thesis
    using Driver_formula [of example_pulse 1 2 0 3 4 2 1 0 2 1 "[0, 1]" 4] by blast
qed

text \<open>
  With coincident edges and rise scales that are not 0 the two hyperbolic tangents cancel
  and the field is zero.
\<close>

lemma Driver_zero_width:
  assumes "this_pulse ''k0'' = Some k0" "this_pulse ''w0'' = Some w0"
    "this_pulse ''dw0'' = Some dw0" "this_pulse ''a0'' = Some a0"
    "this_pulse ''t_c'' = Some t_c" "this_pulse ''t_w'' = Some t_w" "this_pulse ''t_r'' = Some t_r"
    "this_pulse ''x_c'' = Some x_c" "this_pulse ''x_w'' = Some x_w" "this_pulse ''x_r'' = Some x_r"
    "t_w = 0 \<or> x_w = 0" "t_r \<noteq> 0" "x_r \<noteq> 0"
  shows "Driver_call (Driver_init x) this_pulse t = Some (replicate (length x) (Some 0))"
  unfolding Driver_call_eq [OF assms(1-10)] using assms(11-13)
  by (auto simp: tanh_quotient_def map_replicate_const)

text \<open>
  With the rise scale 0 the window is a step: 1 strictly between the edges, 0 strictly
  outside them, and not a number on an edge.
\<close>

lemma get_envelope_zero_rise:
  "p_L < ax \<Longrightarrow> ax < p_R \<Longrightarrow> get_envelope 0 0 p_L p_R ax = Some 1"
  "ax < p_L \<Longrightarrow> ax < p_R \<Longrightarrow> get_envelope 0 0 p_L p_R ax = Some 0"
  "p_L < ax \<Longrightarrow> p_R < ax \<Longrightarrow> get_envelope 0 0 p_L p_R ax = Some 0"
  "ax = p_L \<or> ax = p_R \<Longrightarrow> get_envelope 0 0 p_L p_R ax = None"
  by (auto simp: get_envelope_def tanh_quotient_def)

section \<open>The energy stepper\<close>

text \<open>
  C7. For \<open>u\<close>, \<open>p_over_m\<close> and \<open>kx\<close> of one length the energy stepper returns the array
  \<open>- u (d(p/m)/dx) - gamma (p/m) (du/dx)\<close>, both derivatives taken by the spectral gradient,
  with no further term; the arguments \<open>n\<close> and \<open>q_over_m_times_e\<close> do not enter: any other
  pair of arrays in their place gives the same result.
\<close>

theorem EnergyStepper_formula:
  assumes "length u = N" "length p_over_m = N" "length kx = N"
  shows "\<exists>du dp r. gradient u kx = Some du \<and> gradient p_over_m kx = Some dp
     \<and> EnergyStepper_call (EnergyStepper_init kx gamma) n u p_over_m q = Some r
     \<and> length r = N
     \<and> (\<forall>i<N. r ! i = - (u ! i) * dp ! i - gamma * p_over_m ! i * du ! i)
     \<and> EnergyStepper_call (EnergyStepper_init kx gamma) n' u p_over_m q' = Some r"
proof -
  obtain du where du: "gradient u kx = Some du" "length du = N"
    using assms by (simp add: gradient_same)
  obtain dp where dp: "gradient p_over_m kx = Some dp" "length dp = N"
    using assms by (simp add: gradient_same)
  let ?r = "map2 (-) (map2 (*) (map uminus u) dp) (map2 (*) (map (\<lambda>p. gamma * p) p_over_m) du)"
  have call: "EnergyStepper_call (EnergyStepper_init kx gamma) m u p_over_m s = Some ?r" for m s
    using assms du dp by (simp add: EnergyStepper_call_def EnergyStepper_init_def bcast_same)
  have "\<forall>i<N. ?r ! i = - (u ! i) * dp ! i - gamma * p_over_m ! i * du ! i"
    using assms du dp by simp
  moreover have "length ?r = N" using assms du dp by simp
  ultimately show ?thesis using du dp call by blast
qed

theorem EnergyStepper_formula_witness:
  "\<exists>du dp r. gradient [1, 2] [0, 1] = Some du \<and> gradient [3, 4] [0, 1] = Some dp
     \<and> EnergyStepper_call (EnergyStepper_init [0, 1] 3) [1, 1] [1, 2] [3, 4] [0, 0] = Some r
     \<and> length r = 2
     \<and> (\<forall>i<2. r ! i = - ([1, 2] ! i) * dp ! i - 3 * [3, 4] ! i * du ! i)
     \<and> EnergyStepper_call (EnergyStepper_init [0, 1] 3) [7, 8, 9] [1, 2] [3, 4] [] = Some r"
  by (rule EnergyStepper_formula) simp_all

section \<open>The frequency table\<close>

text \<open>
  C4, as the code has it. For the count 128, the one the steppers pass,
  \<^verbatim>\<open>get_complex_frequency_table\<close> returns three arrays of 128 entries: the wavenumbers
  \<open>0.2 + i (0.4 - 0.2) / 127\<close>, which start at 0.2, end at 0.4 and increase strictly, and
  for each wavenumber the real and the imaginary part of the root the solver returns at
  density ratio 1, temperature ratio 1 and that wavenumber. Every entry is a value the
  solver returned, so a property that holds of all the solver's values on the wavenumbers
  (being finite, for one) holds of every entry.
\<close>

theorem frequency_table_128:
  "\<exists>wrs wis klds. get_complex_frequency_table solve 128 = Some (wrs, wis, klds)
     \<and> length wrs = 128 \<and> length wis = 128 \<and> length klds = 128
     \<and> klds ! 0 = 2 / 10 \<and> last klds = 4 / 10 \<and> sorted_wrt (<) klds
     \<and> (\<forall>i<128. klds ! i = 2 / 10 + real i * ((4 / 10 - 2 / 10) / 127)
            \<and> wrs ! i = Re (solve 1 1 (klds ! i)) \<and> wis ! i = Im (solve 1 1 (klds ! i)))
     \<and> ((\<forall>k\<in>set klds. fin (Re (solve 1 1 k)) \<and> fin (Im (solve 1 1 k)))
          \<longrightarrow> (\<forall>w\<in>set wrs. fin w) \<and> (\<forall>w\<in>set wis. fin w))"
proof -
  let ?k = "linspace (2 / 10) (4 / 10) 128"
  from table_ge [of 128 solve] obtain wrs wis where
    t: "get_complex_frequency_table solve 128 = Some (wrs, wis, ?k)"
    and len: "length wrs = 128" "length wis = 128"
    and r: "\<forall>j<128. wrs ! j = Re (solve 1 1 (?k ! j))"
    and i: "\<forall>j<128. wis ! j = Im (solve 1 1 (?k ! j))"
    by auto
  have nodes: "\<forall>i<128. ?k ! i = 2 / 10 + real i * ((4 / 10 - 2 / 10) / 127)
            \<and> wrs ! i = Re (solve 1 1 (?k ! i)) \<and> wis ! i = Im (solve 1 1 (?k ! i))"
  proof (intro allI impI conjI)
    fix j :: nat assume j: "j < 128"
    show "?k ! j = 2 / 10 + real j * ((4 / 10 - 2 / 10) / 127)"
      using klds_nth [OF j] by simp
    show "wrs ! j = Re (solve 1 1 (?k ! j))" using r j by blast
    show "wis ! j = Im (solve 1 1 (?k ! j))" using i j by blast
  qed
  have fin: "(\<forall>w\<in>set wrs. fin w) \<and> (\<forall>w\<in>set wis. fin w)"
    if h: "\<forall>k\<in>set ?k. fin (Re (solve 1 1 k)) \<and> fin (Im (solve 1 1 k))"
  proof -
    have "fin (wrs ! j) \<and> fin (wis ! j)" if "j < 128" for j
    proof -
      have "?k ! j \<in> set ?k" using that by (intro nth_mem) simp
      then show ?thesis using h r i that by simp
    qed
    then show ?thesis using len by (auto simp: in_set_conv_nth)
  qed
  have lk: "length ?k = 128" by simp
  from fin have fin':
    "(\<forall>k\<in>set ?k. fin (Re (solve 1 1 k)) \<and> fin (Im (solve 1 1 k)))
       \<longrightarrow> (\<forall>w\<in>set wrs. fin w) \<and> (\<forall>w\<in>set wis. fin w)"
    by blast
  show ?thesis
    by (intro exI [of _ wrs] exI [of _ wis] exI [of _ ?k] conjI)
       (fact t len lk klds_first klds_last klds_strict nodes fin')+
qed

theorem frequency_table_128_witness:
  "\<exists>wrs wis klds. get_complex_frequency_table example_solver 128 = Some (wrs, wis, klds)
     \<and> wrs ! 0 = 12 / 10 \<and> wis ! 0 = - (2 / 10)
     \<and> (\<forall>w\<in>set wrs. \<bar>w\<bar> \<le> 2) \<and> (\<forall>w\<in>set wis. \<bar>w\<bar> \<le> 2)"
proof -
  from frequency_table_128 [of example_solver "\<lambda>w. \<bar>w\<bar> \<le> 2"] obtain wrs wis klds where
    t: "get_complex_frequency_table example_solver 128 = Some (wrs, wis, klds)"
    and len: "length klds = 128"
    and k0: "klds ! 0 = 2 / 10"
    and nodes: "\<forall>i<128. klds ! i = 2 / 10 + real i * ((4 / 10 - 2 / 10) / 127)
            \<and> wrs ! i = Re (example_solver 1 1 (klds ! i)) \<and> wis ! i = Im (example_solver 1 1 (klds ! i))"
    and fin: "(\<forall>k\<in>set klds. \<bar>Re (example_solver 1 1 k)\<bar> \<le> 2 \<and> \<bar>Im (example_solver 1 1 k)\<bar> \<le> 2)
          \<longrightarrow> (\<forall>w\<in>set wrs. \<bar>w\<bar> \<le> 2) \<and> (\<forall>w\<in>set wis. \<bar>w\<bar> \<le> 2)"
    by blast
  have "\<bar>Re (example_solver 1 1 k)\<bar> \<le> 2 \<and> \<bar>Im (example_solver 1 1 k)\<bar> \<le> 2" if "k \<in> set klds" for k
  proof -
    from that len obtain i where i: "i < 128" "k = klds ! i" by (auto simp: in_set_conv_nth)
    then have "k = 2 / 10 + real i * ((4 / 10 - 2 / 10) / 127)" using nodes by simp
    moreover have "real i \<le> 127" using i by simp
    ultimately have "0 \<le> k" "k \<le> 1" by simp_all
    then show ?thesis by (simp add: example_solver_def)
  qed
  with fin have "(\<forall>w\<in>set wrs. \<bar>w\<bar> \<le> 2) \<and> (\<forall>w\<in>set wis. \<bar>w\<bar> \<le> 2)" by blast
  moreover have "wrs ! 0 = 12 / 10" "wis ! 0 = - (2 / 10)"
    using nodes k0 by (simp_all add: example_solver_def)
  ultimately show ?thesis using t by blast
qed

text \<open>
  The claim C4 as stated, for every count, fails: the wavenumber array always has 128
  entries while the frequency arrays have \<open>num\<close> entries, so the call with a smaller count
  raises at the first store past the end, and the call with a larger count returns arrays
  of different lengths.
\<close>

theorem frequency_table_count_counterexample:
  "get_complex_frequency_table example_solver 64 = None
   \<and> map_option (length \<circ> fst) (get_complex_frequency_table example_solver 129) = Some 129
   \<and> map_option (length \<circ> snd \<circ> snd) (get_complex_frequency_table example_solver 129) = Some 128"
proof -
  from table_ge [of 129 example_solver] obtain wrs wis where
    "get_complex_frequency_table example_solver 129 = Some (wrs, wis, linspace (2 / 10) (4 / 10) 128)"
    "length wrs = 129"
    by auto
  then show ?thesis by (simp add: table_short)
qed

section \<open>Construction and call of the steppers\<close>

lemma length_rfft_pos:
  assumes "0 < length a"
  shows "length (rfft a) = length a div 2 + 1"
proof -
  have "length a div 2 + 1 \<le> length a" using assms by arith
  then show ?thesis by (simp only: length_rfft min_absorb1)
qed

lemma map2_map_same: "map2 f (map g xs) (map h xs) = map (\<lambda>x. f (g x) (h x)) xs"
  by (simp add: zip_map_map zip_same_conv_map)

lemma VelocityStepper_init_eq:
  assumes "physics ''kinetic_real_wepw'' = Some kin" "physics ''landau_damping'' = Some ld"
  shows "\<exists>wrs wis klds. get_complex_frequency_table solve 128 = Some (wrs, wis, klds)
     \<and> length wrs = 128 \<and> length wis = 128 \<and> klds = linspace (2 / 10) (4 / 10) 128
     \<and> VelocityStepper_init solve kx kxr physics
         = Some \<lparr>vs_kx = kx,
                 vs_wis = (if ld then map (interp1 klds wis 0 (last wis)) kxr else zeros_like kxr),
                 vs_wr_corr = (if kin then map (\<lambda>k. interp1 klds wrs 0 (last wrs) k
                                                        / sqrt (1 + 3 * k\<^sup>2)) kxr
                               else ones_like kxr)\<rparr>"
proof -
  define K where "K = linspace (2 / 10) (4 / 10) 128"
  from table_ge [of 128 solve, folded K_def] obtain wrs wis where
    t: "get_complex_frequency_table solve 128 = Some (wrs, wis, K)"
    and len: "length wrs = 128" "length wis = 128"
    by auto
  have lK: "length K = 128" by (simp add: K_def)
  then have ne: "K \<noteq> []" by auto
  have i1: "interp kxr K wrs l r = Some (map (interp1 K wrs l r) kxr)" for l r
    using len lK ne by (simp add: interp_def)
  have i2: "interp kxr K wis l r = Some (map (interp1 K wis l r) kxr)" for l r
    using len lK ne by (simp add: interp_def)
  have "VelocityStepper_init solve kx kxr physics
         = Some \<lparr>vs_kx = kx,
                 vs_wis = (if ld then map (interp1 K wis 0 (last wis)) kxr else zeros_like kxr),
                 vs_wr_corr = (if kin then map (\<lambda>k. interp1 K wrs 0 (last wrs) k
                                                        / sqrt (1 + 3 * k\<^sup>2)) kxr
                               else ones_like kxr)\<rparr>"
    unfolding VelocityStepper_init_def t using assms
    by (simp add: i1 i2 map2_map_same)
  with t len K_def show ?thesis by blast
qed

lemma ParticleTrapper_init_eq:
  "\<exists>wrs wis klds. get_complex_frequency_table solve 128 = Some (wrs, wis, klds)
     \<and> length wrs = 128 \<and> length wis = 128 \<and> klds = linspace (2 / 10) (4 / 10) 128
     \<and> ParticleTrapper_init solve kxr kx
         = Some \<lparr>pt_kxr = kxr, pt_wis = map (interp1 klds wis 0 0) kxr, pt_kx = kx\<rparr>"
proof -
  define K where "K = linspace (2 / 10) (4 / 10) 128"
  from table_ge [of 128 solve, folded K_def] obtain wrs wis where
    t: "get_complex_frequency_table solve 128 = Some (wrs, wis, K)"
    and len: "length wrs = 128" "length wis = 128"
    by auto
  have lK: "length K = 128" by (simp add: K_def)
  then have ne: "K \<noteq> []" by auto
  have i2: "interp kxr K wis l r = Some (map (interp1 K wis l r) kxr)" for l r
    using len lK ne by (simp add: interp_def)
  have "ParticleTrapper_init solve kxr kx
         = Some \<lparr>pt_kxr = kxr, pt_wis = map (interp1 K wis 0 0) kxr, pt_kx = kx\<rparr>"
    unfolding ParticleTrapper_init_def t by (simp add: i2)
  with t len K_def show ?thesis by blast
qed

lemma spectral_filter_even:
  assumes "even N" "0 < N" "length g = N" "length w = N div 2 + 1"
  shows "bcast (\<lambda>w z. complex_of_real w * z) w (rfft g)
           = Some (map2 (\<lambda>w z. complex_of_real w * z) w (rfft g))"
    and "length (irfft (map2 (\<lambda>w z. complex_of_real w * z) w (rfft g))) = N"
  using assms by (simp_all add: bcast_same length_rfft_pos)

lemma VelocityStepper_call_even:
  assumes N: "even N" "0 < N"
    and len: "length n = N" "length u = N" "length p = N" "length q = N" "length delta = N"
    and st: "length (vs_kx s) = N" "length (vs_wr_corr s) = N div 2 + 1"
            "length (vs_wis s) = N div 2 + 1"
  shows "\<exists>du dp rf ldt r. gradient u (vs_kx s) = Some du \<and> gradient p (vs_kx s) = Some dp
     \<and> length du = N \<and> length dp = N
     \<and> restoring_force_term s (map2 (/) dp n) = Some rf
     \<and> rf = irfft (map2 (\<lambda>w z. complex_of_real w * z) (vs_wr_corr s) (rfft (map2 (/) dp n)))
     \<and> landau_damping_term s u = Some ldt
     \<and> ldt = irfft (map2 (\<lambda>w z. complex_of_real w * z) (vs_wis s) (rfft u))
     \<and> VelocityStepper_call s n u p q delta = Some r \<and> length r = N
     \<and> (\<forall>i<N. r ! i = - (u ! i) * du ! i - rf ! i - q ! i + ldt ! i / (1 + (delta ! i)\<^sup>2))"
proof -
  obtain du where du: "gradient u (vs_kx s) = Some du" "length du = N"
    using len st by (simp add: gradient_same)
  obtain dp where dp: "gradient p (vs_kx s) = Some dp" "length dp = N"
    using len st by (simp add: gradient_same)
  let ?g = "map2 (/) dp n"
  let ?rf = "irfft (map2 (\<lambda>w z. complex_of_real w * z) (vs_wr_corr s) (rfft ?g))"
  let ?ld = "irfft (map2 (\<lambda>w z. complex_of_real w * z) (vs_wis s) (rfft u))"
  have lg: "length ?g = N" using dp len by simp
  have rf: "restoring_force_term s ?g = Some ?rf" and lrf: "length ?rf = N"
    using spectral_filter_even [OF N lg st(2)] by (simp_all add: restoring_force_term_def)
  have ld: "landau_damping_term s u = Some ?ld" and lld: "length ?ld = N"
    using spectral_filter_even [OF N len(2) st(3)] by (simp_all add: landau_damping_term_def)
  let ?r = "map2 (+) (map2 (-) (map2 (-) (map2 (*) (map uminus u) du) ?rf) q)
                     (map2 (/) ?ld (map (\<lambda>d. 1 + d\<^sup>2) delta))"
  have g: "bcast (/) dp n = Some ?g" using dp len by (simp add: bcast_same)
  have call: "VelocityStepper_call s n u p q delta = Some ?r"
    unfolding VelocityStepper_call_def du dp
    using len du(2) dp(2) lrf lld
    by (simp add: g rf ld bcast_same del: length_irfft)
  have lr: "length ?r = N" using len du(2) lrf lld by (simp del: length_irfft)
  have "\<forall>i<N. ?r ! i = - (u ! i) * du ! i - ?rf ! i - q ! i + ?ld ! i / (1 + (delta ! i)\<^sup>2)"
    using len du(2) lrf lld by (simp del: length_irfft)
  with du dp rf ld call lr show ?thesis by blast
qed

lemma VelocityStepper_odd:
  assumes "odd N" "3 \<le> N"
    and "length n = N" "length u = N" "length p = N"
    and "length (vs_kx s) = N" "length (vs_wr_corr s) = N div 2 + 1"
  shows "VelocityStepper_call s n u p q delta = None"
proof -
  obtain du where du: "gradient u (vs_kx s) = Some du" "length du = N"
    using assms by (simp add: gradient_same)
  obtain dp where dp: "gradient p (vs_kx s) = Some dp" "length dp = N"
    using assms by (simp add: gradient_same)
  let ?g = "map2 (/) dp n"
  let ?rf = "irfft (map2 (\<lambda>w z. complex_of_real w * z) (vs_wr_corr s) (rfft ?g))"
  have lg: "length ?g = N" using dp assms by simp
  then have lrg: "length (rfft ?g) = N div 2 + 1"
    using assms(2) by (intro length_rfft_pos [THEN trans]) simp_all
  have rf: "restoring_force_term s ?g = Some ?rf"
    using lrg assms(7) by (simp add: restoring_force_term_def bcast_same)
  have "2 * (N div 2 + 1 - 1) = N - 1" using assms(1) by (auto elim: oddE)
  then have lrf: "length ?rf = N - 1" using lrg assms(7) by simp
  have t1: "bcast (*) (map uminus u) du = Some (map2 (*) (map uminus u) du)"
    using du assms by (simp add: bcast_same)
  have "N \<noteq> N - 1" "N \<noteq> 1" "N - 1 \<noteq> 1" using assms(2) by arith+
  moreover have "length (map2 (*) (map uminus u) du) = N" using du(2) assms(4) by simp
  ultimately have "bcast (-) (map2 (*) (map uminus u) du) ?rf = None"
    unfolding bcast_def lrf by (simp only: if_False)
  then show ?thesis
    unfolding VelocityStepper_call_def du dp
    using dp(2) assms(3) by (simp add: t1 rf bcast_same del: length_irfft)
qed

lemma ParticleTrapper_odd:
  assumes "odd N" "3 \<le> N"
    and "length e = N" "length delta = N"
    and "length (pt_kx s) = N" "length (pt_wis s) = N div 2 + 1"
  shows "ParticleTrapper_call s e delta = None"
proof -
  obtain dd where dd: "gradient delta (pt_kx s) = Some dd" "length dd = N"
    using assms by (simp add: gradient_same)
  let ?y = "map2 (\<lambda>z w. z * complex_of_real w) (rfft e) (pt_wis s)"
  have lre: "length (rfft e) = N div 2 + 1"
    using assms(2,3) by (intro length_rfft_pos [THEN trans]) simp_all
  have y: "bcast (\<lambda>z w. z * complex_of_real w) (rfft e) (pt_wis s) = Some ?y"
    using lre assms(6) by (simp add: bcast_same)
  have "2 * (N div 2 + 1 - 1) = N - 1" using assms(1) by (auto elim: oddE)
  then have lf: "length (map (\<lambda>v. 100 * \<bar>v\<bar>) (irfft ?y)) = N - 1"
    using lre assms(6) by simp
  have "N \<noteq> N - 1" "N \<noteq> 1" "N - 1 \<noteq> 1" using assms(2) by arith+
  moreover have "length (map (\<lambda>v. - 3.757 * v) dd) = N" using dd(2) by simp
  ultimately have "bcast (+) (map (\<lambda>v. - 3.757 * v) dd) (map (\<lambda>v. 100 * \<bar>v\<bar>) (irfft ?y)) = None"
    unfolding bcast_def lf by (simp only: if_False)
  then show ?thesis
    by (simp only: ParticleTrapper_call_def dd y bind.bind_lunit bind.bind_lzero)
qed

lemma interp1_klds_left:
  assumes "k < 2 / 10"
  shows "interp1 (linspace (2 / 10) (4 / 10) 128) fp l r k = l"
proof -
  have "k < linspace (2 / 10) (4 / 10) 128 ! 0" "k \<le> last (linspace (2 / 10) (4 / 10) 128)"
    using assms by (simp_all only: klds_first klds_last)
  then show ?thesis by (rule interp1_left)
qed

lemma interp1_klds_right:
  assumes "4 / 10 < k"
  shows "interp1 (linspace (2 / 10) (4 / 10) 128) fp l r k = r"
proof -
  have "last (linspace (2 / 10) (4 / 10) 128) < k"
    using assms by (simp only: klds_last)
  then show ?thesis by (rule interp1_right)
qed

lemma interp1_klds_interior:
  assumes "i < 127" "linspace (2 / 10) (4 / 10) 128 ! i \<le> k"
    "k < linspace (2 / 10) (4 / 10) 128 ! Suc i"
  shows "interp1 (linspace (2 / 10) (4 / 10) 128) fp l r k
         = fp ! i + (k - linspace (2 / 10) (4 / 10) 128 ! i)
                    / (linspace (2 / 10) (4 / 10) 128 ! Suc i - linspace (2 / 10) (4 / 10) 128 ! i)
                    * (fp ! Suc i - fp ! i)"
proof -
  have "Suc i < length (linspace (2 / 10) (4 / 10) 128)" using assms(1) by simp
  with klds_strict show ?thesis using assms(2,3) by (rule interp1_interior)
qed

lemma interp1_klds_end:
  "interp1 (linspace (2 / 10) (4 / 10) 128) fp l r (4 / 10) = fp ! 127"
proof -
  have "2 \<le> length (linspace (2 / 10) (4 / 10) 128)" by simp
  with klds_strict have "interp1 (linspace (2 / 10) (4 / 10) 128) fp l r
      (last (linspace (2 / 10) (4 / 10) 128)) = fp ! (length (linspace (2 / 10) (4 / 10) 128) - 1)"
    by (rule interp1_at_last)
  then show ?thesis by (simp only: klds_last length_linspace) simp
qed

lemma last_128:
  assumes "length xs = 128"
  shows "last xs = xs ! 127"
proof -
  have "xs \<noteq> []" using assms by auto
  then show ?thesis using assms by (simp add: last_conv_nth)
qed

section \<open>The velocity stepper\<close>

text \<open>
  C1, as the code has it. On a grid of even length \<open>N\<close>, with \<open>kx\<close> of length \<open>N\<close>, \<open>kxr\<close> of
  the half-spectrum length \<open>N div 2 + 1\<close>, fields of length \<open>N\<close> and a density that is
  nowhere zero, the velocity stepper is constructed and returns the array
  \<open>- u (du/dx) - restoring_force ((d(p/m)/dx) / n) - q_over_m_times_e
     + landau_damping u / (1 + delta\<^sup>2)\<close>,
  entry by entry. Both derivatives are the spectral gradient; the restoring force is the
  half-spectrum filter with \<open>wr_corr\<close>, the damping the half-spectrum filter with \<open>wis\<close>.
  With the kinetic real frequency enabled, \<open>wr_corr\<close> is the interpolation of the real
  frequencies of the table at \<open>kxr\<close>, divided entry by entry by \<open>sqrt (1 + 3 kxr\<^sup>2)\<close>; with
  Landau damping enabled, \<open>wis\<close> is the interpolation of the imaginary frequencies. Either
  interpolation is 0 to the left of the table, the last entry of the table from its last
  node on, and between two neighbouring nodes the straight line through the two entries.
\<close>

theorem VelocityStepper_formula:
  assumes N: "even N" "0 < N"
    and len: "length n = N" "length u = N" "length p_over_m = N"
             "length q_over_m_times_e = N" "length delta = N"
    and grid: "length kx = N" "length kxr = N div 2 + 1"
    and nz: "\<forall>x\<in>set n. x \<noteq> 0"
    and phys: "physics ''kinetic_real_wepw'' = Some kin" "physics ''landau_damping'' = Some ld"
  shows "\<exists>wrs wis klds s du dp rf ldt r.
       get_complex_frequency_table solve 128 = Some (wrs, wis, klds)
     \<and> klds = linspace (2 / 10) (4 / 10) 128
     \<and> VelocityStepper_init solve kx kxr physics = Some s
     \<and> vs_kx s = kx
     \<and> (kin \<longrightarrow> vs_wr_corr s
            = map (\<lambda>k. interp1 klds wrs 0 (last wrs) k / sqrt (1 + 3 * k\<^sup>2)) kxr)
     \<and> (ld \<longrightarrow> vs_wis s = map (interp1 klds wis 0 (last wis)) kxr)
     \<and> (\<forall>k. k < 2 / 10 \<longrightarrow> interp1 klds wrs 0 (last wrs) k = 0
                            \<and> interp1 klds wis 0 (last wis) k = 0)
     \<and> (\<forall>k. 4 / 10 \<le> k \<longrightarrow> interp1 klds wrs 0 (last wrs) k = last wrs
                            \<and> interp1 klds wis 0 (last wis) k = last wis)
     \<and> (\<forall>i k. i < 127 \<and> klds ! i \<le> k \<and> k < klds ! Suc i \<longrightarrow>
            interp1 klds wrs 0 (last wrs) k
              = wrs ! i + (k - klds ! i) / (klds ! Suc i - klds ! i) * (wrs ! Suc i - wrs ! i)
          \<and> interp1 klds wis 0 (last wis) k
              = wis ! i + (k - klds ! i) / (klds ! Suc i - klds ! i) * (wis ! Suc i - wis ! i))
     \<and> gradient u kx = Some du \<and> gradient p_over_m kx = Some dp
     \<and> restoring_force_term s (map2 (/) dp n) = Some rf
     \<and> rf = irfft (map2 (\<lambda>w z. complex_of_real w * z) (vs_wr_corr s) (rfft (map2 (/) dp n)))
     \<and> landau_damping_term s u = Some ldt
     \<and> ldt = irfft (map2 (\<lambda>w z. complex_of_real w * z) (vs_wis s) (rfft u))
     \<and> VelocityStepper_call s n u p_over_m q_over_m_times_e delta = Some r
     \<and> length r = N
     \<and> (\<forall>i<N. r ! i = - (u ! i) * du ! i - rf ! i - q_over_m_times_e ! i
                         + ldt ! i / (1 + (delta ! i)\<^sup>2))"
proof -
  from VelocityStepper_init_eq [OF phys, of solve kx kxr] obtain wrs wis klds where
    t: "get_complex_frequency_table solve 128 = Some (wrs, wis, klds)"
    and lw: "length wrs = 128" "length wis = 128"
    and k: "klds = linspace (2 / 10) (4 / 10) 128"
    and init0: "VelocityStepper_init solve kx kxr physics
      = Some \<lparr>vs_kx = kx,
                 vs_wis = (if ld then map (interp1 klds wis 0 (last wis)) kxr else zeros_like kxr),
                 vs_wr_corr = (if kin then map (\<lambda>k. interp1 klds wrs 0 (last wrs) k
                                                        / sqrt (1 + 3 * k\<^sup>2)) kxr
                               else ones_like kxr)\<rparr>"
    by (elim exE conjE) (rule that, assumption+)
  define s where "s = \<lparr>vs_kx = kx,
                 vs_wis = (if ld then map (interp1 klds wis 0 (last wis)) kxr else zeros_like kxr),
                 vs_wr_corr = (if kin then map (\<lambda>k. interp1 klds wrs 0 (last wrs) k
                                                        / sqrt (1 + 3 * k\<^sup>2)) kxr
                               else ones_like kxr)\<rparr>"
  have init: "VelocityStepper_init solve kx kxr physics = Some s"
    unfolding s_def by (rule init0)
  note s = s_def
  have st: "length (vs_kx s) = N" "length (vs_wr_corr s) = N div 2 + 1"
           "length (vs_wis s) = N div 2 + 1"
    using grid by (simp_all add: s ones_like_def zeros_like_def)
  from VelocityStepper_call_even [OF N len st] obtain du dp rf ldt r where
    c: "gradient u (vs_kx s) = Some du" "gradient p_over_m (vs_kx s) = Some dp"
       "restoring_force_term s (map2 (/) dp n) = Some rf"
       "rf = irfft (map2 (\<lambda>w z. complex_of_real w * z) (vs_wr_corr s) (rfft (map2 (/) dp n)))"
       "landau_damping_term s u = Some ldt"
       "ldt = irfft (map2 (\<lambda>w z. complex_of_real w * z) (vs_wis s) (rfft u))"
       "VelocityStepper_call s n u p_over_m q_over_m_times_e delta = Some r"
       "length r = N"
       "\<forall>i<N. r ! i = - (u ! i) * du ! i - rf ! i - q_over_m_times_e ! i
                         + ldt ! i / (1 + (delta ! i)\<^sup>2)"
    by (elim exE conjE) (rule that, assumption+)
  have kx: "vs_kx s = kx" by (simp add: s)
  have f1: "kin \<longrightarrow> vs_wr_corr s
            = map (\<lambda>k. interp1 klds wrs 0 (last wrs) k / sqrt (1 + 3 * k\<^sup>2)) kxr"
    by (simp add: s)
  have f2: "ld \<longrightarrow> vs_wis s = map (interp1 klds wis 0 (last wis)) kxr"
    by (simp add: s)
  have lo: "\<forall>k. k < 2 / 10 \<longrightarrow> interp1 klds wrs 0 (last wrs) k = 0
                            \<and> interp1 klds wis 0 (last wis) k = 0"
    unfolding k by (intro allI impI conjI interp1_klds_left)
  have hi: "\<forall>k. 4 / 10 \<le> k \<longrightarrow> interp1 klds wrs 0 (last wrs) k = last wrs
                            \<and> interp1 klds wis 0 (last wis) k = last wis"
  proof (intro allI impI)
    fix x :: real assume x: "4 / 10 \<le> x"
    show "interp1 klds wrs 0 (last wrs) x = last wrs \<and> interp1 klds wis 0 (last wis) x = last wis"
    proof (cases "x = 4 / 10")
      case True
      show ?thesis
        unfolding k True interp1_klds_end last_128 [OF lw(1)] last_128 [OF lw(2)] by simp
    next
      case False
      then have "4 / 10 < x" using x by simp
      then show ?thesis unfolding k by (intro conjI interp1_klds_right)
    qed
  qed
  have mid: "\<forall>i k. i < 127 \<and> klds ! i \<le> k \<and> k < klds ! Suc i \<longrightarrow>
            interp1 klds wrs 0 (last wrs) k
              = wrs ! i + (k - klds ! i) / (klds ! Suc i - klds ! i) * (wrs ! Suc i - wrs ! i)
          \<and> interp1 klds wis 0 (last wis) k
              = wis ! i + (k - klds ! i) / (klds ! Suc i - klds ! i) * (wis ! Suc i - wis ! i)"
    unfolding k by (intro allI impI conjI interp1_klds_interior; elim conjE; assumption)
  show ?thesis
    by (rule exI [of _ wrs], rule exI [of _ wis], rule exI [of _ klds], rule exI [of _ s],
        rule exI [of _ du], rule exI [of _ dp], rule exI [of _ rf], rule exI [of _ ldt],
        rule exI [of _ r], intro conjI)
       (fact t k init kx f1 f2 lo hi mid c [unfolded kx])+
qed

theorem VelocityStepper_formula_witness:
  "\<exists>s r. VelocityStepper_init example_solver [0, - 1] [0, 1] physics_on = Some s
     \<and> vs_kx s = [0, - 1]
     \<and> VelocityStepper_call s [1, 2] [3, 4] [5, 6] [7, 8] [9, 10] = Some r
     \<and> length r = 2"
proof -
  have "\<exists>wrs wis klds s du dp rf ldt r.
       get_complex_frequency_table example_solver 128 = Some (wrs, wis, klds)
     \<and> klds = linspace (2 / 10) (4 / 10) 128
     \<and> VelocityStepper_init example_solver [0, - 1] [0, 1] physics_on = Some s
     \<and> vs_kx s = [0, - 1]
     \<and> (True \<longrightarrow> vs_wr_corr s
            = map (\<lambda>k. interp1 klds wrs 0 (last wrs) k / sqrt (1 + 3 * k\<^sup>2)) [0, 1])
     \<and> (True \<longrightarrow> vs_wis s = map (interp1 klds wis 0 (last wis)) [0, 1])
     \<and> (\<forall>k. k < 2 / 10 \<longrightarrow> interp1 klds wrs 0 (last wrs) k = 0
                            \<and> interp1 klds wis 0 (last wis) k = 0)
     \<and> (\<forall>k. 4 / 10 \<le> k \<longrightarrow> interp1 klds wrs 0 (last wrs) k = last wrs
                            \<and> interp1 klds wis 0 (last wis) k = last wis)
     \<and> (\<forall>i k. i < 127 \<and> klds ! i \<le> k \<and> k < klds ! Suc i \<longrightarrow>
            interp1 klds wrs 0 (last wrs) k
              = wrs ! i + (k - klds ! i) / (klds ! Suc i - klds ! i) * (wrs ! Suc i - wrs ! i)
          \<and> interp1 klds wis 0 (last wis) k
              = wis ! i + (k - klds ! i) / (klds ! Suc i - klds ! i) * (wis ! Suc i - wis ! i))
     \<and> gradient [3, 4] [0, - 1] = Some du \<and> gradient [5, 6] [0, - 1] = Some dp
     \<and> restoring_force_term s (map2 (/) dp [1, 2]) = Some rf
     \<and> rf = irfft (map2 (\<lambda>w z. complex_of_real w * z) (vs_wr_corr s) (rfft (map2 (/) dp [1, 2])))
     \<and> landau_damping_term s [3, 4] = Some ldt
     \<and> ldt = irfft (map2 (\<lambda>w z. complex_of_real w * z) (vs_wis s) (rfft [3, 4]))
     \<and> VelocityStepper_call s [1, 2] [3, 4] [5, 6] [7, 8] [9, 10] = Some r
     \<and> length r = 2
     \<and> (\<forall>i<2. r ! i = - ([3, 4] ! i) * du ! i - rf ! i - [7, 8] ! i
                         + ldt ! i / (1 + ([9, 10] ! i)\<^sup>2))"
    by (rule VelocityStepper_formula) (simp_all add: physics_on_def)
  then show ?thesis by blast
qed

text \<open>
  The claim C1 as stated, for all field arrays of one length, fails on a grid of odd
  length: the inverse half-spectrum transform returns \<open>N - 1\<close> samples, which cannot be
  combined with the arrays of length \<open>N\<close>. On the grid of three points the stepper is
  constructed with both options enabled and its call raises, so no array is returned.
\<close>

theorem VelocityStepper_odd_grid_counterexample:
  "VelocityStepper_init example_solver [0, 1, - 1] [0, 1] physics_on \<noteq> None
   \<and> VelocityStepper_call
        (the (VelocityStepper_init example_solver [0, 1, - 1] [0, 1] physics_on))
        [1, 2, 3] [1, 2, 3] [1, 2, 3] [1, 2, 3] [1, 2, 3] = None"
proof -
  have "physics_on ''kinetic_real_wepw'' = Some True" "physics_on ''landau_damping'' = Some True"
    by (simp_all add: physics_on_def)
  from VelocityStepper_init_eq [OF this, of example_solver "[0, 1, - 1]" "[0, 1]"]
  obtain s where s: "VelocityStepper_init example_solver [0, 1, - 1] [0, 1] physics_on = Some s"
    and "length (vs_kx s) = 3" "length (vs_wr_corr s) = 3 div 2 + 1"
    by auto
  then have "VelocityStepper_call s [1, 2, 3] [1, 2, 3] [1, 2, 3] [1, 2, 3] [1, 2, 3] = None"
    by (intro VelocityStepper_odd [where N = 3]) simp_all
  with s show ?thesis by simp
qed

section \<open>The velocity stepper without closure\<close>

lemma filter_ones:
  assumes "length X = m"
  shows "map2 (\<lambda>w z. complex_of_real w * z) (replicate m 1) X = X"
  using assms by (intro nth_equalityI) simp_all

lemma filter_zeros:
  assumes "length X = m"
  shows "map2 (\<lambda>w z. complex_of_real w * z) (replicate m 0) X = replicate m 0"
  using assms by (intro nth_equalityI) simp_all

text \<open>
  C3. With both flags \<open>kinetic_real_wepw\<close> and \<open>landau_damping\<close> false the constructor
  stores the all-ones array as \<open>wr_corr\<close> and the all-zero array as \<open>wis\<close>, and on a grid
  of even length, with a density that is nowhere zero, the stepper returns exactly the
  Euler right-hand side \<open>- u (du/dx) - (d(p/m)/dx) / n - q_over_m_times_e\<close>: the filter of
  ones is the round trip \<open>irfft (rfft g) = g\<close>, the filter of zeros returns zero.
\<close>

theorem VelocityStepper_euler:
  assumes N: "even N" "0 < N"
    and len: "length n = N" "length u = N" "length p_over_m = N"
             "length q_over_m_times_e = N" "length delta = N"
    and grid: "length kx = N" "length kxr = N div 2 + 1"
    and nz: "\<forall>x\<in>set n. x \<noteq> 0"
    and phys: "physics ''kinetic_real_wepw'' = Some False" "physics ''landau_damping'' = Some False"
  shows "\<exists>s. VelocityStepper_init solve kx kxr physics = Some s
     \<and> vs_wr_corr s = replicate (length kxr) 1
     \<and> vs_wis s = replicate (length kxr) 0
     \<and> VelocityStepper_call s n u p_over_m q_over_m_times_e delta
         = euler_rhs kx n u p_over_m q_over_m_times_e
     \<and> euler_rhs kx n u p_over_m q_over_m_times_e \<noteq> None"
proof -
  define s where "s = \<lparr>vs_kx = kx, vs_wis = zeros_like kxr, vs_wr_corr = ones_like kxr\<rparr>"
  have init: "VelocityStepper_init solve kx kxr physics = Some s"
    using VelocityStepper_init_eq [OF phys, of solve kx kxr] by (auto simp: s_def)
  have wr: "vs_wr_corr s = replicate (N div 2 + 1) 1" and wi: "vs_wis s = replicate (N div 2 + 1) 0"
    and kx: "vs_kx s = kx"
    using grid by (simp_all add: s_def ones_like_def zeros_like_def)
  have st: "length (vs_kx s) = N" "length (vs_wr_corr s) = N div 2 + 1"
           "length (vs_wis s) = N div 2 + 1"
    using grid by (simp_all add: wr wi kx)
  from VelocityStepper_call_even [OF N len st] obtain du dp rf ldt r where
    du: "gradient u kx = Some du" and dp: "gradient p_over_m kx = Some dp"
    and ldu: "length du = N" and ldp: "length dp = N"
    and rf: "rf = irfft (map2 (\<lambda>w z. complex_of_real w * z) (vs_wr_corr s) (rfft (map2 (/) dp n)))"
    and ldt: "ldt = irfft (map2 (\<lambda>w z. complex_of_real w * z) (vs_wis s) (rfft u))"
    and call: "VelocityStepper_call s n u p_over_m q_over_m_times_e delta = Some r"
    and lr: "length r = N"
    and r: "\<forall>i<N. r ! i = - (u ! i) * du ! i - rf ! i - q_over_m_times_e ! i
                         + ldt ! i / (1 + (delta ! i)\<^sup>2)"
    unfolding kx by (elim exE conjE) (rule that, assumption+)
  let ?g = "map2 (/) dp n"
  have lg: "length ?g = N" using ldp len by simp
  have "rf = irfft (rfft ?g)"
    unfolding rf wr using lg N by (simp only: filter_ones length_rfft_pos)
  also have "\<dots> = ?g" using N lg by (intro irfft_rfft) simp_all
  finally have rf': "rf = ?g" .
  have "ldt = irfft (replicate (N div 2 + 1) 0)"
    unfolding ldt wi using len N by (simp only: filter_zeros length_rfft_pos)
  also have "\<dots> = replicate N 0"
  proof -
    have "2 * (N div 2 + 1 - 1) = N" using N(1) by (auto elim: evenE)
    then show ?thesis by (simp only: irfft_zero)
  qed
  finally have ldt': "ldt = replicate N 0" .
  have "r = map (\<lambda>i. - (u ! i) * du ! i - dp ! i / n ! i - q_over_m_times_e ! i) [0..<length u]"
  proof (rule nth_equalityI)
    fix i assume "i < length r"
    then have i: "i < N" using lr by simp
    then show "r ! i = map (\<lambda>i. - (u ! i) * du ! i - dp ! i / n ! i - q_over_m_times_e ! i)
                         [0..<length u] ! i"
      using r len ldp by (simp add: rf' ldt')
  qed (use lr len in simp)
  then have "euler_rhs kx n u p_over_m q_over_m_times_e = Some r"
    by (simp add: euler_rhs_def du dp)
  with init call wr wi grid show ?thesis by simp
qed

theorem VelocityStepper_euler_witness:
  "\<exists>s. VelocityStepper_init example_solver [0, - 1] [0, 1] physics_off = Some s
     \<and> vs_wr_corr s = replicate (length [0, 1 :: real]) 1
     \<and> vs_wis s = replicate (length [0, 1 :: real]) 0
     \<and> VelocityStepper_call s [1, 2] [3, 4] [5, 6] [7, 8] [9, 10]
         = euler_rhs [0, - 1] [1, 2] [3, 4] [5, 6] [7, 8]
     \<and> euler_rhs [0, - 1] [1, 2] [3, 4] [5, 6] [7, 8] \<noteq> None"
  by (rule VelocityStepper_euler [where N = 2]) (simp_all add: physics_off_def)

section \<open>The particle trapper\<close>

text \<open>
  C2, as the code has it. On a grid of even length \<open>N\<close>, with \<open>kx\<close> of length \<open>N\<close>, \<open>kxr\<close> of
  length \<open>N div 2 + 1\<close> and \<open>e\<close>, \<open>delta\<close> of length \<open>N\<close>, the particle trapper is
  constructed and returns
  \<open>- 3.757 (d(delta)/dx) + 100 \<bar>irfft (rfft e * wis_trap)\<bar> - 0.001 delta\<close> entry by entry,
  the derivative taken by the spectral gradient. Its filter \<open>wis_trap\<close> is the interpolation
  of the imaginary frequencies of the table at \<open>kxr\<close>: 0 to the left of the table and 0 to
  the right of it, the last entry of the table at its last node, and between two
  neighbouring nodes the straight line through the two entries. The constructor takes no
  option record. The forcing term \<open>100 \<bar>\<dots>\<bar>\<close> is nowhere negative.
\<close>

theorem ParticleTrapper_formula:
  assumes N: "even N" "0 < N"
    and len: "length e = N" "length delta = N"
    and grid: "length kx = N" "length kxr = N div 2 + 1"
  shows "\<exists>wrs wis klds s dd f r.
       get_complex_frequency_table solve 128 = Some (wrs, wis, klds)
     \<and> klds = linspace (2 / 10) (4 / 10) 128
     \<and> ParticleTrapper_init solve kxr kx = Some s
     \<and> pt_kx s = kx
     \<and> pt_wis s = map (interp1 klds wis 0 0) kxr
     \<and> (\<forall>k. k < 2 / 10 \<or> 4 / 10 < k \<longrightarrow> interp1 klds wis 0 0 k = 0)
     \<and> interp1 klds wis 0 0 (4 / 10) = last wis
     \<and> (\<forall>i k. i < 127 \<and> klds ! i \<le> k \<and> k < klds ! Suc i \<longrightarrow>
            interp1 klds wis 0 0 k
              = wis ! i + (k - klds ! i) / (klds ! Suc i - klds ! i) * (wis ! Suc i - wis ! i))
     \<and> gradient delta kx = Some dd
     \<and> f = irfft (map2 (\<lambda>z w. z * complex_of_real w) (rfft e) (pt_wis s))
     \<and> ParticleTrapper_call s e delta = Some r
     \<and> length r = N
     \<and> (\<forall>i<N. r ! i = - 3.757 * dd ! i + 100 * \<bar>f ! i\<bar> - 0.001 * delta ! i
                \<and> 0 \<le> 100 * \<bar>f ! i\<bar>)"
proof -
  from ParticleTrapper_init_eq [of solve kxr kx] obtain wrs wis klds where
    t: "get_complex_frequency_table solve 128 = Some (wrs, wis, klds)"
    and lw: "length wis = 128"
    and k: "klds = linspace (2 / 10) (4 / 10) 128"
    and init0: "ParticleTrapper_init solve kxr kx
         = Some \<lparr>pt_kxr = kxr, pt_wis = map (interp1 klds wis 0 0) kxr, pt_kx = kx\<rparr>"
    by (elim exE conjE) (rule that, assumption+)
  define s where "s = \<lparr>pt_kxr = kxr, pt_wis = map (interp1 klds wis 0 0) kxr, pt_kx = kx\<rparr>"
  have init: "ParticleTrapper_init solve kxr kx = Some s"
    unfolding s_def by (rule init0)
  have kx: "pt_kx s = kx" and w: "pt_wis s = map (interp1 klds wis 0 0) kxr"
    by (simp_all add: s_def)
  have out: "\<forall>k. k < 2 / 10 \<or> 4 / 10 < k \<longrightarrow> interp1 klds wis 0 0 k = 0"
    unfolding k using interp1_klds_left interp1_klds_right by blast
  have en: "interp1 klds wis 0 0 (4 / 10) = last wis"
    unfolding k interp1_klds_end last_128 [OF lw] by (rule refl)
  have mid: "\<forall>i k. i < 127 \<and> klds ! i \<le> k \<and> k < klds ! Suc i \<longrightarrow>
            interp1 klds wis 0 0 k
              = wis ! i + (k - klds ! i) / (klds ! Suc i - klds ! i) * (wis ! Suc i - wis ! i)"
    unfolding k by (intro allI impI interp1_klds_interior; elim conjE; assumption)
  obtain dd where dd: "gradient delta kx = Some dd" and ldd: "length dd = N"
    using len grid by (simp add: gradient_same)
  define f where "f = irfft (map2 (\<lambda>z w. z * complex_of_real w) (rfft e) (pt_wis s))"
  have lw: "length (pt_wis s) = N div 2 + 1" using grid by (simp add: w)
  have lre: "length (rfft e) = N div 2 + 1" using len N by (simp add: length_rfft_pos)
  have "2 * (N div 2 + 1 - 1) = N" using N(1) by (auto elim: evenE)
  then have lf: "length f = N" using lw lre by (simp add: f_def)
  define a1 where "a1 = map (\<lambda>v. - 3.757 * v) dd"
  define a2 where "a2 = map (\<lambda>v. 100 * \<bar>v\<bar>) f"
  define a3 where "a3 = map (\<lambda>d. 0.001 * d) delta"
  have la: "length a1 = N" "length a2 = N" "length a3 = N"
    using ldd lf len by (simp_all add: a1_def a2_def a3_def)
  let ?r = "map2 (-) (map2 (+) a1 a2) a3"
  have y: "bcast (\<lambda>z w. z * complex_of_real w) (rfft e) (pt_wis s)
           = Some (map2 (\<lambda>z w. z * complex_of_real w) (rfft e) (pt_wis s))"
    using lw lre by (simp add: bcast_same)
  have "ParticleTrapper_call s e delta = bcast (+) a1 a2 \<bind> (\<lambda>t1. bcast (-) t1 a3)"
    by (simp only: ParticleTrapper_call_def kx dd y bind.bind_lunit f_def a1_def a2_def a3_def)
  also have "\<dots> = Some ?r"
    using la by (simp add: bcast_same)
  finally have call: "ParticleTrapper_call s e delta = Some ?r" .
  have lr: "length ?r = N" using la by simp
  have r: "\<forall>i<N. ?r ! i = - 3.757 * dd ! i + 100 * \<bar>f ! i\<bar> - 0.001 * delta ! i
                \<and> 0 \<le> 100 * \<bar>f ! i\<bar>"
  proof (intro allI impI)
    fix i assume i: "i < N"
    have "a1 ! i = - 3.757 * dd ! i" "a2 ! i = 100 * \<bar>f ! i\<bar>" "a3 ! i = 0.001 * delta ! i"
      using i ldd lf len by (simp_all add: a1_def a2_def a3_def)
    then show "?r ! i = - 3.757 * dd ! i + 100 * \<bar>f ! i\<bar> - 0.001 * delta ! i
                \<and> 0 \<le> 100 * \<bar>f ! i\<bar>"
      using i la by simp
  qed
  show ?thesis
    by (rule exI [of _ wrs], rule exI [of _ wis], rule exI [of _ klds], rule exI [of _ s],
        rule exI [of _ dd], rule exI [of _ f], rule exI [of _ ?r], intro conjI)
       (fact t k init kx w out en mid dd f_def call lr r)+
qed

theorem ParticleTrapper_formula_witness:
  "\<exists>s r. ParticleTrapper_init example_solver [0, 1] [0, - 1] = Some s
     \<and> ParticleTrapper_call s [1, 2] [3, 4] = Some r \<and> length r = 2"
proof -
  have "\<exists>wrs wis klds s dd f r.
       get_complex_frequency_table example_solver 128 = Some (wrs, wis, klds)
     \<and> klds = linspace (2 / 10) (4 / 10) 128
     \<and> ParticleTrapper_init example_solver [0, 1] [0, - 1] = Some s
     \<and> pt_kx s = [0, - 1]
     \<and> pt_wis s = map (interp1 klds wis 0 0) [0, 1]
     \<and> (\<forall>k. k < 2 / 10 \<or> 4 / 10 < k \<longrightarrow> interp1 klds wis 0 0 k = 0)
     \<and> interp1 klds wis 0 0 (4 / 10) = last wis
     \<and> (\<forall>i k. i < 127 \<and> klds ! i \<le> k \<and> k < klds ! Suc i \<longrightarrow>
            interp1 klds wis 0 0 k
              = wis ! i + (k - klds ! i) / (klds ! Suc i - klds ! i) * (wis ! Suc i - wis ! i))
     \<and> gradient [3, 4] [0, - 1] = Some dd
     \<and> f = irfft (map2 (\<lambda>z w. z * complex_of_real w) (rfft [1, 2]) (pt_wis s))
     \<and> ParticleTrapper_call s [1, 2] [3, 4] = Some r
     \<and> length r = 2
     \<and> (\<forall>i<2. r ! i = - 3.757 * dd ! i + 100 * \<bar>f ! i\<bar> - 0.001 * [3, 4] ! i
                \<and> 0 \<le> 100 * \<bar>f ! i\<bar>)"
    by (rule ParticleTrapper_formula) simp_all
  then show ?thesis by blast
qed

text \<open>
  The claim C2 as stated, for all arrays \<open>e\<close> and \<open>delta\<close> of one length, fails on a grid of
  odd length: the inverse half-spectrum transform returns \<open>N - 1\<close> samples, which cannot be
  added to the gradient of length \<open>N\<close>. On the grid of three points the trapper is
  constructed and its call raises, so no array is returned.
\<close>

theorem ParticleTrapper_odd_grid_counterexample:
  "ParticleTrapper_init example_solver [0, 1] [0, 1, - 1] \<noteq> None
   \<and> ParticleTrapper_call (the (ParticleTrapper_init example_solver [0, 1] [0, 1, - 1]))
        [1, 2, 3] [1, 2, 3] = None"
proof -
  from ParticleTrapper_init_eq [of example_solver "[0, 1]" "[0, 1, - 1]"]
  obtain s where s: "ParticleTrapper_init example_solver [0, 1] [0, 1, - 1] = Some s"
    and "length (pt_kx s) = 3" "length (pt_wis s) = 3 div 2 + 1"
    by auto
  then have "ParticleTrapper_call s [1, 2, 3] [1, 2, 3] = None"
    by (intro ParticleTrapper_odd [where N = 3]) simp_all
  with s show ?thesis by simp
qed

section \<open>The stationary equilibrium\<close>

lemma map2_replicate: "map2 f (replicate m a) (replicate m b) = replicate m (f a b)"
  by (simp add: map_replicate)

lemma filter_zero_spectrum:
  assumes "length w = m"
  shows "map2 (\<lambda>w z. complex_of_real w * z) w (replicate m 0) = replicate m 0"
    and "map2 (\<lambda>z w. z * complex_of_real w) (replicate m 0) w = replicate m 0"
  using assms by (intro nth_equalityI; simp)+

lemma rfft_zero_even:
  assumes "0 < N"
  shows "rfft (replicate N 0) = replicate (N div 2 + 1) 0"
proof -
  have "N div 2 + 1 \<le> N" using assms by arith
  then show ?thesis by (simp only: rfft_zero min_absorb1)
qed

lemma irfft_zero_even:
  assumes "even N"
  shows "irfft (replicate (N div 2 + 1) 0) = replicate N 0"
proof -
  have "2 * (N div 2 + 1 - 1) = N" using assms by (auto elim: evenE)
  then show ?thesis by (simp only: irfft_zero)
qed

lemma irfft_zero_even_Suc:
  assumes "even N"
  shows "irfft (replicate (Suc (N div 2)) 0) = replicate N 0"
  using irfft_zero_even [OF assms] by simp

lemma rfft_zero_even_Suc:
  assumes "0 < N"
  shows "rfft (replicate N 0) = replicate (Suc (N div 2)) 0"
  using rfft_zero_even [OF assms] by simp

lemma DensityStepper_equilibrium:
  assumes "0 < N" "length kx = N" "kx ! 0 = 0"
  shows "DensityStepper_call (DensityStepper_init kx) (replicate N 1) (replicate N 0)
         = Some (replicate N 0)"
  using assms
  by (simp add: DensityStepper_call_def DensityStepper_init_def gradient_const bcast_same
      map2_replicate)

lemma EnergyStepper_equilibrium:
  assumes "0 < N" "length kx = N" "kx ! 0 = 0"
  shows "EnergyStepper_call (EnergyStepper_init kx gamma) n' (replicate N 0) (replicate N 1) q'
         = Some (replicate N 0)"
  using assms
  by (simp add: EnergyStepper_call_def EnergyStepper_init_def gradient_const bcast_same
      map2_replicate)

lemma VelocityStepper_equilibrium:
  assumes "even N" "0 < N" "length kx = N" "kx ! 0 = 0" "length kxr = N div 2 + 1"
  shows "VelocityStepper_call
           \<lparr>vs_kx = kx, vs_wis = zeros_like kxr, vs_wr_corr = ones_like kxr\<rparr>
           (replicate N 1) (replicate N 0) (replicate N 1) (replicate N 0) (replicate N 0)
         = Some (replicate N 0)"
proof -
  let ?s = "\<lparr>vs_kx = kx, vs_wis = zeros_like kxr, vs_wr_corr = ones_like kxr\<rparr>"
  have rf: "restoring_force_term ?s (replicate N 0) = Some (replicate N 0)"
    using assms
    by (simp add: restoring_force_term_def ones_like_def rfft_zero_even bcast_same
        map2_replicate irfft_zero_even_Suc rfft_zero_even_Suc del: replicate_Suc)
  have ld: "landau_damping_term ?s (replicate N 0) = Some (replicate N 0)"
    using assms
    by (simp add: landau_damping_term_def zeros_like_def rfft_zero_even bcast_same
        map2_replicate irfft_zero_even_Suc rfft_zero_even_Suc del: replicate_Suc)
  show ?thesis
    unfolding VelocityStepper_call_def using assms
    by (simp add: gradient_const bcast_same map2_replicate rf ld)
qed

lemma ParticleTrapper_equilibrium:
  assumes "even N" "0 < N" "length kx = N" "kx ! 0 = 0" "length w = N div 2 + 1"
  shows "ParticleTrapper_call \<lparr>pt_kxr = kxr, pt_wis = w, pt_kx = kx\<rparr>
           (replicate N 0) (replicate N 0) = Some (replicate N 0)"
  unfolding ParticleTrapper_call_def using assms
  by (simp add: gradient_const bcast_same map2_replicate rfft_zero_even
      filter_zero_spectrum irfft_zero_even_Suc rfft_zero_even_Suc map_replicate del: replicate_Suc)

text \<open>
  C8, as the code has it. On a periodic grid of even length \<open>N\<close>, with \<open>kx\<close> of length \<open>N\<close>
  and \<open>kx ! 0 = 0\<close>, \<open>kxr\<close> of the half-spectrum length \<open>N div 2 + 1\<close> and both flags
  disabled, the snapshot \<open>n = 1\<close>, \<open>u = 0\<close>, \<open>p_over_m = 1\<close>, \<open>q_over_m_times_e = 0\<close>,
  \<open>delta = 0\<close>, \<open>e = 0\<close> makes the density, velocity and energy steppers and the particle
  trapper return the all-zero array.
\<close>

theorem equilibrium_even_grid:
  assumes "even N" "0 < N" "length kx = N" "kx ! 0 = 0" "length kxr = N div 2 + 1"
    and "physics ''kinetic_real_wepw'' = Some False" "physics ''landau_damping'' = Some False"
  shows "DensityStepper_call (DensityStepper_init kx) (replicate N 1) (replicate N 0)
           = Some (replicate N 0)
     \<and> (\<exists>s. VelocityStepper_init solve kx kxr physics = Some s
            \<and> VelocityStepper_call s (replicate N 1) (replicate N 0) (replicate N 1)
                 (replicate N 0) (replicate N 0) = Some (replicate N 0))
     \<and> EnergyStepper_call (EnergyStepper_init kx gamma) (replicate N 1) (replicate N 0)
           (replicate N 1) (replicate N 0) = Some (replicate N 0)
     \<and> (\<exists>s. ParticleTrapper_init solve kxr kx = Some s
            \<and> ParticleTrapper_call s (replicate N 0) (replicate N 0) = Some (replicate N 0))"
proof (intro conjI)
  show "DensityStepper_call (DensityStepper_init kx) (replicate N 1) (replicate N 0)
           = Some (replicate N 0)"
    using assms by (intro DensityStepper_equilibrium)
  show "EnergyStepper_call (EnergyStepper_init kx gamma) (replicate N 1) (replicate N 0)
           (replicate N 1) (replicate N 0) = Some (replicate N 0)"
    using assms by (intro EnergyStepper_equilibrium)
  have "VelocityStepper_init solve kx kxr physics
          = Some \<lparr>vs_kx = kx, vs_wis = zeros_like kxr, vs_wr_corr = ones_like kxr\<rparr>"
    using VelocityStepper_init_eq [OF assms(6,7), of solve kx kxr] by auto
  then show "\<exists>s. VelocityStepper_init solve kx kxr physics = Some s
            \<and> VelocityStepper_call s (replicate N 1) (replicate N 0) (replicate N 1)
                 (replicate N 0) (replicate N 0) = Some (replicate N 0)"
    using VelocityStepper_equilibrium [OF assms(1-5)] by simp
  from ParticleTrapper_init_eq [of solve kxr kx] obtain w where
    "ParticleTrapper_init solve kxr kx = Some \<lparr>pt_kxr = kxr, pt_wis = w, pt_kx = kx\<rparr>"
    "length w = length kxr"
    by auto
  then show "\<exists>s. ParticleTrapper_init solve kxr kx = Some s
            \<and> ParticleTrapper_call s (replicate N 0) (replicate N 0) = Some (replicate N 0)"
    using ParticleTrapper_equilibrium [OF assms(1-4), of w kxr] assms(5) by simp
qed

theorem equilibrium_even_grid_witness:
  "DensityStepper_call (DensityStepper_init [0, 1, - 2, - 1]) (replicate 4 1) (replicate 4 0)
           = Some (replicate 4 0)
     \<and> (\<exists>s. VelocityStepper_init example_solver [0, 1, - 2, - 1] [0, 1, 2] physics_off = Some s
            \<and> VelocityStepper_call s (replicate 4 1) (replicate 4 0) (replicate 4 1)
                 (replicate 4 0) (replicate 4 0) = Some (replicate 4 0))
     \<and> EnergyStepper_call (EnergyStepper_init [0, 1, - 2, - 1] 3) (replicate 4 1) (replicate 4 0)
           (replicate 4 1) (replicate 4 0) = Some (replicate 4 0)
     \<and> (\<exists>s. ParticleTrapper_init example_solver [0, 1, 2] [0, 1, - 2, - 1] = Some s
            \<and> ParticleTrapper_call s (replicate 4 0) (replicate 4 0) = Some (replicate 4 0))"
  by (rule equilibrium_even_grid) (simp_all add: physics_off_def)

text \<open>
  The claim C8 as stated, for every periodic grid, fails on a grid of odd length: the
  inverse half-spectrum transform returns \<open>N - 1\<close> samples, which the velocity stepper
  cannot combine with its arrays of length \<open>N\<close>. On the grid of three points the stepper is
  constructed and its call raises.
\<close>

theorem equilibrium_odd_grid_counterexample:
  "VelocityStepper_init example_solver [0, 1, - 1] [0, 1] physics_off
     = Some \<lparr>vs_kx = [0, 1, - 1], vs_wis = [0, 0], vs_wr_corr = [1, 1]\<rparr>
   \<and> VelocityStepper_call \<lparr>vs_kx = [0, 1, - 1], vs_wis = [0, 0], vs_wr_corr = [1, 1]\<rparr>
        [1, 1, 1] [0, 0, 0] [1, 1, 1] [0, 0, 0] [0, 0, 0] = None"
proof
  have "physics_off ''kinetic_real_wepw'' = Some False" "physics_off ''landau_damping'' = Some False"
    by (simp_all add: physics_off_def)
  from VelocityStepper_init_eq [OF this, of example_solver "[0, 1, - 1]" "[0, 1]"]
  show "VelocityStepper_init example_solver [0, 1, - 1] [0, 1] physics_off
     = Some \<lparr>vs_kx = [0, 1, - 1], vs_wis = [0, 0], vs_wr_corr = [1, 1]\<rparr>"
    by (auto simp: ones_like_def zeros_like_def)
  show "VelocityStepper_call \<lparr>vs_kx = [0, 1, - 1], vs_wis = [0, 0], vs_wr_corr = [1, 1]\<rparr>
        [1, 1, 1] [0, 0, 0] [1, 1, 1] [0, 0, 0] [0, 0, 0] = None"
    by (rule VelocityStepper_odd [where N = 3]) simp_all
qed

section \<open>The Ampere step\<close>

text \<open>
  C10. For arrays \<open>n\<close> and \<open>u\<close> of the same length, \<^verbatim>\<open>StepAmpere()(n, u)\<close> returns their
  elementwise product: an array of that length whose entry \<open>i\<close> is \<open>n ! i * u ! i\<close>.
\<close>

theorem StepAmpere_product:
  assumes "length n = length u"
  shows "\<exists>r. StepAmpere_call n u = Some r \<and> length r = length n
           \<and> (\<forall>i<length n. r ! i = n ! i * u ! i)"
  using assms by (simp add: StepAmpere_call_def bcast_def)

theorem StepAmpere_product_witness:
  "StepAmpere_call [1, 2, 3] [4, 5, 6] = Some [4, 10, 18]"
  using StepAmpere_product [of "[1, 2, 3]" "[4, 5, 6]"]
  by (simp add: StepAmpere_call_def bcast_def)
end
